theory Spec2Isabelle
  imports Complex_Main
begin

section \<open>Shared conventions\<close>

text \<open>
  The client is a set of React function components. Component state (the \<open>useState\<close>
  cells) is a record; every event handler is a function from state to state. A handler
  that awaits a network call is split at the \<open>await\<close>: the part before it runs when
  the user acts, the part after it runs when the response arrives, and other callbacks
  may run in between (the host is single-threaded and event driven).

  Strings are \<open>string\<close>; \<open>null\<close> and \<open>undefined\<close> are \<open>None\<close>. A JavaScript
  string is falsy exactly when it is empty.
\<close>

definition truthy :: "string option \<Rightarrow> bool" where
  "truthy v = (case v of None \<Rightarrow> False | Some x \<Rightarrow> x \<noteq> [])"

text \<open>
  \<open>err.response?.data?.error || fallback\<close>: the server's error text when it is
  present and non-empty, the fallback otherwise.
\<close>

definition or_default :: "string option \<Rightarrow> string \<Rightarrow> string" where
  "or_default v d = (case v of None \<Rightarrow> d | Some x \<Rightarrow> if x = [] then d else x)"

section \<open>VideoRequestForm.tsx\<close>

text \<open>
  \<open>String.prototype.trim\<close> strips white space and line terminators from both ends.
  A \<open>char\<close> is read as a code unit below 256; in that range the characters stripped are
  TAB, LF, VT, FF, CR, SPACE and NBSP.
\<close>

definition js_whitespace :: "char \<Rightarrow> bool" where
  "js_whitespace c = (of_char c \<in> set [9, 10, 11, 12, 13, 32, 160 :: nat])"

definition trim :: "string \<Rightarrow> string" where
  "trim x = rev (dropWhile js_whitespace (rev (dropWhile js_whitespace x)))"

text \<open>
  \<open>handleSubmit\<close> of the form. The result is the call made to the \<open>onSubmit\<close>
  property: \<open>Some a\<close> when \<open>onSubmit(a)\<close> is called, \<open>None\<close> when it is not.
\<close>

definition handleSubmit :: "string \<Rightarrow> string option" where
  "handleSubmit instruction =
     (if trim instruction \<noteq> [] then Some (trim instruction) else None)"

text \<open>The \<open>disabled\<close> attribute of the submit button.\<close>

definition submit_disabled :: "bool \<Rightarrow> string \<Rightarrow> bool" where
  "submit_disabled isLoading_prop instruction = (isLoading_prop \<or> \<not> (trim instruction \<noteq> []))"

section \<open>TutorialLibrary.tsx\<close>

text \<open>
  The \<open>Tutorial\<close> interface. Fields whose names are also fields of the job record
  below carry the suffix \<open>_t\<close>.
\<close>

record Tutorial =
  id_t :: string
  goal :: string
  original_instruction :: string
  success_criteria :: string
  steps_count :: int
  video_url_t :: string
  video_filename_t :: string
  download_url :: string
  file_size_mb :: real
  created_at_t :: string

text \<open>
  What a running \<open>handleDelete\<close> call holds while it awaits the delete request: its
  argument \<open>id\<close> and the constants \<open>tutorials\<close>, \<open>expandedId\<close> and \<open>playingId\<close> of
  the render that created the handler. The code after the \<open>await\<close> reads these, not the
  state cells.
\<close>

record delete_closure =
  c_id :: string
  c_tutorials :: "Tutorial list"
  c_expandedId :: "string option"
  c_playingId :: "string option"

text \<open>
  The state cells of the component, the alerts shown so far, the delete requests in
  flight (each with the closure of the call that awaits it) and the number of list
  requests in flight. The cell \<open>error\<close> of this component is \<open>lib_error\<close>.
\<close>

record lib_state =
  tutorials :: "Tutorial list"
  loading :: bool
  lib_error :: "string option"
  expandedId :: "string option"
  playingId :: "string option"
  alerts :: "string list"
  deleting :: "delete_closure list"
  fetching :: nat

text \<open>
  The component when it is mounted: the effect with no dependencies has called
  \<open>fetchTutorials\<close> once.
\<close>

definition lib_init :: lib_state where
  "lib_init =
     \<lparr>tutorials = [], loading = True, lib_error = None, expandedId = None,
      playingId = None, alerts = [], deleting = [], fetching = 1\<rparr>"

text \<open>\<open>fetchTutorials\<close>: up to the \<open>await\<close>, on success, and on failure.\<close>

definition fetchTutorials_start :: "lib_state \<Rightarrow> lib_state" where
  "fetchTutorials_start s = s\<lparr>loading := True, fetching := Suc (fetching s)\<rparr>"

definition fetchTutorials_ok :: "Tutorial list \<Rightarrow> lib_state \<Rightarrow> lib_state" where
  "fetchTutorials_ok ts s =
     s\<lparr>tutorials := ts, lib_error := None, loading := False, fetching := fetching s - 1\<rparr>"

definition fetchTutorials_fail :: "string option \<Rightarrow> lib_state \<Rightarrow> lib_state" where
  "fetchTutorials_fail err s =
     s\<lparr>lib_error := Some (or_default err ''Failed to load tutorials''), loading := False,
       fetching := fetching s - 1\<rparr>"

definition capture :: "string \<Rightarrow> lib_state \<Rightarrow> delete_closure" where
  "capture i s =
     \<lparr>c_id = i, c_tutorials = tutorials s, c_expandedId = expandedId s, c_playingId = playingId s\<rparr>"

text \<open>
  \<open>handleDelete\<close> up to the \<open>await\<close>: a declined \<open>window.confirm\<close> returns at once,
  otherwise the delete request is sent.
\<close>

definition handleDelete_click :: "string \<Rightarrow> bool \<Rightarrow> lib_state \<Rightarrow> lib_state" where
  "handleDelete_click i confirmed s =
     (if \<not> confirmed then s else s\<lparr>deleting := deleting s @ [capture i s]\<rparr>)"

text \<open>\<open>handleDelete\<close> after the \<open>await\<close>, when the request succeeded.\<close>

definition handleDelete_ok :: "delete_closure \<Rightarrow> lib_state \<Rightarrow> lib_state" where
  "handleDelete_ok c s =
     s\<lparr>tutorials := filter (\<lambda>t. id_t t \<noteq> c_id c) (c_tutorials c),
       expandedId := (if c_expandedId c = Some (c_id c) then None else expandedId s),
       playingId := (if c_playingId c = Some (c_id c) then None else playingId s),
       deleting := remove1 c (deleting s)\<rparr>"

text \<open>\<open>handleDelete\<close> after the \<open>await\<close>, when the request failed: the \<open>catch\<close> branch.\<close>

definition handleDelete_fail :: "delete_closure \<Rightarrow> string option \<Rightarrow> lib_state \<Rightarrow> lib_state" where
  "handleDelete_fail c err s =
     s\<lparr>alerts := alerts s @ [or_default err ''Failed to delete tutorial''],
       deleting := remove1 c (deleting s)\<rparr>"

definition toggleExpand :: "string \<Rightarrow> lib_state \<Rightarrow> lib_state" where
  "toggleExpand i s =
     (if expandedId s = Some i then s\<lparr>expandedId := None, playingId := None\<rparr>
      else s\<lparr>expandedId := Some i\<rparr>)"

definition togglePlay :: "string \<Rightarrow> lib_state \<Rightarrow> lib_state" where
  "togglePlay i s = s\<lparr>playingId := (if playingId s = Some i then None else Some i)\<rparr>"

text \<open>
  The callbacks of the component as events. A response is enabled only while its request
  is in flight; \<open>lib_step\<close> returns \<open>None\<close> for an event that cannot happen.
\<close>

datatype lib_event =
    Fetch
  | FetchOk "Tutorial list"
  | FetchFail "string option"
  | ClickDelete string bool
  | DeleteOk delete_closure
  | DeleteFail delete_closure "string option"
  | ToggleExpand string
  | TogglePlay string

fun lib_step :: "lib_event \<Rightarrow> lib_state \<Rightarrow> lib_state option" where
  "lib_step Fetch s = Some (fetchTutorials_start s)"
| "lib_step (FetchOk ts) s = (if 0 < fetching s then Some (fetchTutorials_ok ts s) else None)"
| "lib_step (FetchFail err) s =
     (if 0 < fetching s then Some (fetchTutorials_fail err s) else None)"
| "lib_step (ClickDelete i confirmed) s = Some (handleDelete_click i confirmed s)"
| "lib_step (DeleteOk c) s = (if c \<in> set (deleting s) then Some (handleDelete_ok c s) else None)"
| "lib_step (DeleteFail c err) s =
     (if c \<in> set (deleting s) then Some (handleDelete_fail c err s) else None)"
| "lib_step (ToggleExpand i) s = Some (toggleExpand i s)"
| "lib_step (TogglePlay i) s = Some (togglePlay i s)"

fun lib_run :: "lib_event list \<Rightarrow> lib_state \<Rightarrow> lib_state option" where
  "lib_run [] s = Some s"
| "lib_run (e # es) s = (case lib_step e s of None \<Rightarrow> None | Some s' \<Rightarrow> lib_run es s')"

text \<open>
  A delete with nothing in between: the click, confirmed or not, and then the response
  (\<open>Inr ()\<close> a success, \<open>Inl err\<close> a failure), processed against the render the click
  happened in.
\<close>

definition handleDelete :: "string \<Rightarrow> bool \<Rightarrow> (string option + unit) \<Rightarrow> lib_state \<Rightarrow> lib_state" where
  "handleDelete i confirmed outcome s =
     (if \<not> confirmed then s
      else (case outcome of
              Inr _ \<Rightarrow> handleDelete_ok (capture i s) (handleDelete_click i True s)
            | Inl err \<Rightarrow> handleDelete_fail (capture i s) err (handleDelete_click i True s)))"

section \<open>App.tsx: data\<close>

text \<open>
  The \<open>JobStatus\<close> interface, with the fields of the object literal that
  \<open>handleSubmitInstruction\<close> builds. The task plan and the results payload are opaque
  to the component: they are the type parameters \<open>'p\<close> and \<open>'r\<close>. The fields \<open>id\<close>
  and \<open>error\<close> are \<open>id_j\<close> and \<open>error_j\<close> here.
\<close>

record ('p, 'r) JobStatus =
  id_j :: string
  status :: string
  message :: string
  instruction :: string
  task_plan :: "'p option"
  video_url :: "string option"
  video_filename :: "string option"
  results :: "'r option"
  error_j :: "string option"
  created_at :: string

text \<open>The requests a handler can be awaiting, each with what its URL and body carry.\<close>

datatype 'p request =
    ReqGenerate string
  | ReqStatus string
  | ReqSave string 'p
  | ReqExecute string
  | ReqRegenerate string

text \<open>
  The state cells of \<open>App\<close> and the ref \<open>pollingRef\<close>, and around them the parts of
  the host that the component acts on: the interval timers that are armed (handle and
  the \<open>jobId\<close> their callback closed over), the next handle \<open>setInterval\<close> will
  return (handles are never falsy), the dependency array and the presence of a cleanup
  function from the last run of the polling effect, the requests in flight, and the lines
  written by \<open>console.error\<close>.
\<close>

record ('p, 'r) app_state =
  jobId :: "string option"
  jobStatus :: "('p, 'r) JobStatus option"
  isLoading :: bool
  error :: "string option"
  showLibrary :: bool
  pollingRef :: "nat option"
  timers :: "(nat \<times> string) list"
  nextHandle :: nat
  lastDeps :: "string option \<times> string option"
  hasCleanup :: bool
  pending :: "'p request list"
  console :: "string list"

text \<open>The state after the first render: the effect has run once and armed nothing.\<close>

definition init :: "('p, 'r) app_state" where
  "init =
     \<lparr>jobId = None, jobStatus = None, isLoading = False, error = None, showLibrary = True,
      pollingRef = None, timers = [], nextHandle = 1, lastDeps = (None, None),
      hasCleanup = False, pending = [], console = []\<rparr>"

section \<open>App.tsx: the polling effect\<close>

text \<open>\<open>['completed', 'failed', 'plan_ready'].includes(x)\<close>\<close>

definition terminal :: "string \<Rightarrow> bool" where
  "terminal x = (x \<in> set [''completed'', ''failed'', ''plan_ready''])"

text \<open>The guard of the effect: \<open>jobId && jobStatus && !terminal(jobStatus.status)\<close>.\<close>

definition should_poll :: "('p, 'r) app_state \<Rightarrow> bool" where
  "should_poll s =
     (truthy (jobId s) \<and> (case jobStatus s of None \<Rightarrow> False | Some js \<Rightarrow> \<not> terminal (status js)))"

definition clearInterval :: "nat \<Rightarrow> ('p, 'r) app_state \<Rightarrow> ('p, 'r) app_state" where
  "clearInterval h s = s\<lparr>timers := filter (\<lambda>t. fst t \<noteq> h) (timers s)\<rparr>"

text \<open>
  \<open>if (pollingRef.current) clearInterval(pollingRef.current)\<close>: the cleanup function of
  the effect, and the same two lines in the timer callback and in \<open>resetAll\<close>.
\<close>

definition clear_polling :: "('p, 'r) app_state \<Rightarrow> ('p, 'r) app_state" where
  "clear_polling s = (case pollingRef s of None \<Rightarrow> s | Some h \<Rightarrow> clearInterval h s)"

text \<open>\<open>pollingRef.current = setInterval(callback, 2000)\<close>, the callback closing over \<open>jid\<close>.\<close>

definition arm :: "string \<Rightarrow> ('p, 'r) app_state \<Rightarrow> ('p, 'r) app_state" where
  "arm jid s =
     s\<lparr>pollingRef := Some (nextHandle s),
       timers := timers s @ [(nextHandle s, jid)],
       nextHandle := Suc (nextHandle s)\<rparr>"

text \<open>The body of the effect. It returns a cleanup function only when it arms a timer.\<close>

definition polling_effect :: "('p, 'r) app_state \<Rightarrow> ('p, 'r) app_state" where
  "polling_effect s =
     (if should_poll s
      then (case jobId s of None \<Rightarrow> s | Some jid \<Rightarrow> (arm jid s)\<lparr>hasCleanup := True\<rparr>)
      else s\<lparr>hasCleanup := False\<rparr>)"

text \<open>The dependency array \<open>[jobId, jobStatus?.status]\<close>.\<close>

definition deps :: "('p, 'r) app_state \<Rightarrow> string option \<times> string option" where
  "deps s = (jobId s, map_option status (jobStatus s))"

definition run_cleanup :: "('p, 'r) app_state \<Rightarrow> ('p, 'r) app_state" where
  "run_cleanup s = (if hasCleanup s then clear_polling s else s)"

text \<open>
  What React does after a callback has finished and the component has rendered again:
  when a dependency changed, the cleanup of the previous run (if it returned one) and then
  the effect; nothing otherwise. State updates of one callback are applied together.
\<close>

definition render :: "('p, 'r) app_state \<Rightarrow> ('p, 'r) app_state" where
  "render s =
     (if lastDeps s = deps s then s
      else polling_effect ((run_cleanup s)\<lparr>lastDeps := deps s\<rparr>))"

section \<open>App.tsx: the handlers\<close>

text \<open>\<open>handleSubmitInstruction\<close> up to the \<open>await\<close>.\<close>

definition handleSubmitInstruction_start :: "string \<Rightarrow> ('p, 'r) app_state \<Rightarrow> ('p, 'r) app_state" where
  "handleSubmitInstruction_start instr s =
     s\<lparr>isLoading := True, error := None, jobStatus := None, jobId := None,
       showLibrary := False, pending := pending s @ [ReqGenerate instr]\<rparr>"

text \<open>
  After the \<open>await\<close>, the request having succeeded with \<open>job_id\<close>; \<open>now\<close> is
  \<open>new Date().toISOString()\<close>.
\<close>

definition handleSubmitInstruction_ok ::
  "string \<Rightarrow> string \<Rightarrow> string \<Rightarrow> ('p, 'r) app_state \<Rightarrow> ('p, 'r) app_state" where
  "handleSubmitInstruction_ok instr job_id now s =
     s\<lparr>jobId := Some job_id,
       jobStatus := Some
         \<lparr>id_j = job_id, status = ''pending'', message = ''Generating plan'',
          instruction = instr, task_plan = None, video_url = None, video_filename = None,
          results = None, error_j = None, created_at = now\<rparr>,
       pending := remove1 (ReqGenerate instr) (pending s)\<rparr>"

definition handleSubmitInstruction_fail ::
  "string \<Rightarrow> string option \<Rightarrow> ('p, 'r) app_state \<Rightarrow> ('p, 'r) app_state" where
  "handleSubmitInstruction_fail instr err s =
     s\<lparr>error := Some (or_default err ''Error generating plan''), isLoading := False,
       pending := remove1 (ReqGenerate instr) (pending s)\<rparr>"

text \<open>The timer callback up to the \<open>await\<close>: it sends the status request.\<close>

definition poll_tick :: "string \<Rightarrow> ('p, 'r) app_state \<Rightarrow> ('p, 'r) app_state" where
  "poll_tick jid s = s\<lparr>pending := pending s @ [ReqStatus jid]\<rparr>"

text \<open>The timer callback after the \<open>await\<close>, with the response body \<open>d\<close>.\<close>

definition poll_ok :: "string \<Rightarrow> ('p, 'r) JobStatus \<Rightarrow> ('p, 'r) app_state \<Rightarrow> ('p, 'r) app_state" where
  "poll_ok jid d s =
     (let s1 = s\<lparr>jobStatus := Some d, pending := remove1 (ReqStatus jid) (pending s)\<rparr>
      in if terminal (status d) then clear_polling (s1\<lparr>isLoading := False\<rparr>) else s1)"

text \<open>The \<open>catch\<close> branch of the timer callback.\<close>

definition poll_fail :: "string \<Rightarrow> string \<Rightarrow> ('p, 'r) app_state \<Rightarrow> ('p, 'r) app_state" where
  "poll_fail jid err s =
     s\<lparr>console := console s @ [''Polling error: '' @ err],
       pending := remove1 (ReqStatus jid) (pending s)\<rparr>"

definition handleSaveTaskPlan_start :: "'p \<Rightarrow> ('p, 'r) app_state \<Rightarrow> ('p, 'r) app_state" where
  "handleSaveTaskPlan_start plan s =
     (case jobId s of
        None \<Rightarrow> s
      | Some jid \<Rightarrow> if jid = [] then s else s\<lparr>pending := pending s @ [ReqSave jid plan]\<rparr>)"

definition handleSaveTaskPlan_ok :: "string \<Rightarrow> 'p \<Rightarrow> ('p, 'r) app_state \<Rightarrow> ('p, 'r) app_state" where
  "handleSaveTaskPlan_ok jid plan s =
     s\<lparr>jobStatus := map_option (\<lambda>prev. prev\<lparr>task_plan := Some plan\<rparr>) (jobStatus s),
       pending := remove1 (ReqSave jid plan) (pending s)\<rparr>"

definition handleSaveTaskPlan_fail ::
  "string \<Rightarrow> 'p \<Rightarrow> string option \<Rightarrow> ('p, 'r) app_state \<Rightarrow> ('p, 'r) app_state" where
  "handleSaveTaskPlan_fail jid plan err s =
     s\<lparr>error := Some (or_default err ''Error saving plan''),
       pending := remove1 (ReqSave jid plan) (pending s)\<rparr>"

definition handleExecute_start :: "('p, 'r) app_state \<Rightarrow> ('p, 'r) app_state" where
  "handleExecute_start s =
     (case jobId s of
        None \<Rightarrow> s
      | Some jid \<Rightarrow>
          if jid = [] then s
          else s\<lparr>isLoading := True, error := None, pending := pending s @ [ReqExecute jid]\<rparr>)"

definition handleExecute_ok :: "string \<Rightarrow> ('p, 'r) app_state \<Rightarrow> ('p, 'r) app_state" where
  "handleExecute_ok jid s =
     s\<lparr>jobStatus :=
         map_option (\<lambda>prev. prev\<lparr>status := ''recording'', message := ''Starting recording''\<rparr>)
           (jobStatus s),
       pending := remove1 (ReqExecute jid) (pending s)\<rparr>"

definition handleExecute_fail :: "string \<Rightarrow> string option \<Rightarrow> ('p, 'r) app_state \<Rightarrow> ('p, 'r) app_state" where
  "handleExecute_fail jid err s =
     s\<lparr>error := Some (or_default err ''Error executing''), isLoading := False,
       pending := remove1 (ReqExecute jid) (pending s)\<rparr>"

definition handleRegenerate_start :: "('p, 'r) app_state \<Rightarrow> ('p, 'r) app_state" where
  "handleRegenerate_start s =
     (case jobId s of
        None \<Rightarrow> s
      | Some jid \<Rightarrow>
          if jid = [] then s
          else s\<lparr>isLoading := True, error := None, pending := pending s @ [ReqRegenerate jid]\<rparr>)"

definition handleRegenerate_ok :: "string \<Rightarrow> ('p, 'r) app_state \<Rightarrow> ('p, 'r) app_state" where
  "handleRegenerate_ok jid s =
     s\<lparr>jobStatus :=
         map_option
           (\<lambda>prev. prev\<lparr>status := ''recording'', message := ''Regenerating video'',
                         video_url := None, video_filename := None\<rparr>)
           (jobStatus s),
       pending := remove1 (ReqRegenerate jid) (pending s)\<rparr>"

definition handleRegenerate_fail :: "string \<Rightarrow> string option \<Rightarrow> ('p, 'r) app_state \<Rightarrow> ('p, 'r) app_state" where
  "handleRegenerate_fail jid err s =
     s\<lparr>error := Some (or_default err ''Error regenerating''), isLoading := False,
       pending := remove1 (ReqRegenerate jid) (pending s)\<rparr>"

definition resetAll :: "('p, 'r) app_state \<Rightarrow> ('p, 'r) app_state" where
  "resetAll s =
     clear_polling
       (s\<lparr>jobId := None, jobStatus := None, error := None, isLoading := False,
          showLibrary := True\<rparr>)"

section \<open>App.tsx: callbacks as events\<close>

text \<open>
  One event per callback boundary: a user action, a timer firing, a response arriving.
  A response event names the request it answers. User actions are always enabled; a timer
  fires only while it is armed; a response arrives only for a request in flight.
\<close>

datatype ('p, 'r) event =
    Submit string
  | GenerateOk string string string
  | GenerateFail string "string option"
  | TimerFire nat
  | StatusOk string "('p, 'r) JobStatus"
  | StatusFail string string
  | Save 'p
  | SaveOk string 'p
  | SaveFail string 'p "string option"
  | Execute
  | ExecuteOk string
  | ExecuteFail string "string option"
  | Regenerate
  | RegenerateOk string
  | RegenerateFail string "string option"
  | Reset

definition awaiting :: "'p request \<Rightarrow> ('p, 'r) app_state \<Rightarrow> ('p, 'r) app_state \<Rightarrow> ('p, 'r) app_state option" where
  "awaiting r s s' = (if r \<in> set (pending s) then Some s' else None)"

text \<open>The callback an event runs, up to its end; \<open>None\<close> when the event cannot happen.\<close>

fun callback :: "('p, 'r) event \<Rightarrow> ('p, 'r) app_state \<Rightarrow> ('p, 'r) app_state option" where
  "callback (Submit instr) s = Some (handleSubmitInstruction_start instr s)"
| "callback (GenerateOk instr job_id now) s =
     awaiting (ReqGenerate instr) s (handleSubmitInstruction_ok instr job_id now s)"
| "callback (GenerateFail instr err) s =
     awaiting (ReqGenerate instr) s (handleSubmitInstruction_fail instr err s)"
| "callback (TimerFire h) s =
     (case map_of (timers s) h of None \<Rightarrow> None | Some jid \<Rightarrow> Some (poll_tick jid s))"
| "callback (StatusOk jid d) s = awaiting (ReqStatus jid) s (poll_ok jid d s)"
| "callback (StatusFail jid err) s = awaiting (ReqStatus jid) s (poll_fail jid err s)"
| "callback (Save plan) s = Some (handleSaveTaskPlan_start plan s)"
| "callback (SaveOk jid plan) s = awaiting (ReqSave jid plan) s (handleSaveTaskPlan_ok jid plan s)"
| "callback (SaveFail jid plan err) s =
     awaiting (ReqSave jid plan) s (handleSaveTaskPlan_fail jid plan err s)"
| "callback Execute s = Some (handleExecute_start s)"
| "callback (ExecuteOk jid) s = awaiting (ReqExecute jid) s (handleExecute_ok jid s)"
| "callback (ExecuteFail jid err) s = awaiting (ReqExecute jid) s (handleExecute_fail jid err s)"
| "callback Regenerate s = Some (handleRegenerate_start s)"
| "callback (RegenerateOk jid) s = awaiting (ReqRegenerate jid) s (handleRegenerate_ok jid s)"
| "callback (RegenerateFail jid err) s =
     awaiting (ReqRegenerate jid) s (handleRegenerate_fail jid err s)"
| "callback Reset s = Some (resetAll s)"

text \<open>One step of the component: the callback, then the render that follows it.\<close>

definition step :: "('p, 'r) event \<Rightarrow> ('p, 'r) app_state \<Rightarrow> ('p, 'r) app_state option" where
  "step e s = map_option render (callback e s)"

fun run :: "('p, 'r) event list \<Rightarrow> ('p, 'r) app_state \<Rightarrow> ('p, 'r) app_state option" where
  "run [] s = Some s"
| "run (e # es) s = (case step e s of None \<Rightarrow> None | Some s' \<Rightarrow> run es s')"

text \<open>
  The id of the job whose plan-creation response was processed last in a trace.
\<close>

fun last_answered :: "('p, 'r) event list \<Rightarrow> string option" where
  "last_answered [] = None"
| "last_answered (e # es) =
     (case last_answered es of
        Some j \<Rightarrow> Some j
      | None \<Rightarrow> (case e of GenerateOk instr job_id now \<Rightarrow> Some job_id | _ \<Rightarrow> None))"

text \<open>
  The job of the most recent call of \<open>handleSubmitInstruction\<close> in a trace.
  \<open>note_call\<close> keeps the instruction of the last call and, once the request of that
  call has been answered with success, the job id it returned; \<open>started_job\<close> is that
  id, and \<open>None\<close> while the last call has no job. A response is matched to a call by
  its instruction, which is all a request carries.
\<close>

definition note_call ::
  "(string \<times> string option) option \<Rightarrow> ('p, 'r) event \<Rightarrow> (string \<times> string option) option" where
  "note_call c e =
     (case e of
        Submit instr \<Rightarrow> Some (instr, None)
      | GenerateOk instr job_id now \<Rightarrow>
          (case c of
             Some (i, None) \<Rightarrow> if i = instr then Some (i, Some job_id) else c
           | _ \<Rightarrow> c)
      | _ \<Rightarrow> c)"

definition started_job :: "('p, 'r) event list \<Rightarrow> string option" where
  "started_job es = (case foldl note_call None es of Some (i, Some j) \<Rightarrow> Some j | _ \<Rightarrow> None)"

text \<open>
  A plan-creation request is in flight. A trace is \<open>overlap_free\<close> from a state when no
  call of \<open>handleSubmitInstruction\<close> in it is made while one is.
\<close>

definition is_generate :: "'p request \<Rightarrow> bool" where
  "is_generate r = (case r of ReqGenerate instr \<Rightarrow> True | _ \<Rightarrow> False)"

definition generating :: "('p, 'r) app_state \<Rightarrow> bool" where
  "generating s = list_ex is_generate (pending s)"

fun overlap_free :: "('p, 'r) event list \<Rightarrow> ('p, 'r) app_state \<Rightarrow> bool" where
  "overlap_free [] s = True"
| "overlap_free (e # es) s =
     ((case e of Submit instr \<Rightarrow> \<not> generating s | _ \<Rightarrow> True) \<and>
      (case step e s of None \<Rightarrow> True | Some s' \<Rightarrow> overlap_free es s'))"

text \<open>
  The callbacks that write \<open>jobId\<close> or \<open>jobStatus\<close> where they are null: the response
  of a plan creation and the response of a status request.
\<close>

definition writes_job :: "('p, 'r) event \<Rightarrow> bool" where
  "writes_job e =
     (case e of GenerateOk instr job_id now \<Rightarrow> True | StatusOk jid d \<Rightarrow> True | _ \<Rightarrow> False)"

text \<open>
  Submitting the form inside \<open>App\<close>: the form's \<open>onSubmit\<close> property is
  \<open>handleSubmitInstruction\<close>.
\<close>

definition submit_form :: "string \<Rightarrow> ('p, 'r) app_state \<Rightarrow> ('p, 'r) app_state" where
  "submit_form text s =
     (case handleSubmit text of
        None \<Rightarrow> s
      | Some instr \<Rightarrow> render (handleSubmitInstruction_start instr s))"

section \<open>The invariant of the polling effect\<close>

text \<open>
  \<open>poll_deps\<close> is the guard of the effect as a function of the dependency array.
  \<open>poll_inv\<close> is what holds between callbacks: the effect has seen the current
  dependencies, and a timer is armed exactly when the guard holds, in which case it is
  the one timer \<open>pollingRef\<close> points to and its callback closed over the current
  \<open>jobId\<close>. \<open>pre_inv\<close> is what holds when a callback has finished and the render
  that follows it has not yet run.
\<close>

definition poll_deps :: "string option \<times> string option \<Rightarrow> bool" where
  "poll_deps d = (truthy (fst d) \<and> (case snd d of None \<Rightarrow> False | Some x \<Rightarrow> \<not> terminal x))"

definition poll_inv :: "('p, 'r) app_state \<Rightarrow> bool" where
  "poll_inv s =
     (lastDeps s = deps s \<and> hasCleanup s = should_poll s \<and>
      (if should_poll s
       then (\<exists>h jid. jobId s = Some jid \<and> pollingRef s = Some h \<and> timers s = [(h, jid)])
       else timers s = []))"

definition pre_inv :: "('p, 'r) app_state \<Rightarrow> bool" where
  "pre_inv m =
     (hasCleanup m = poll_deps (lastDeps m) \<and>
      (if poll_deps (lastDeps m)
       then (\<exists>h jid. fst (lastDeps m) = Some jid \<and> pollingRef m = Some h \<and>
              (timers m = [(h, jid)] \<or> timers m = [] \<and> deps m \<noteq> lastDeps m))
       else timers m = []))"

text \<open>
  What relates a state to the record \<open>note_call\<close> keeps, on traces without overlapping
  calls: while a plan-creation request is in flight it is the only one, it belongs to
  the last call, and \<open>jobId\<close> is null; otherwise a \<open>jobId\<close> that is set is the job
  of the last call.
\<close>

definition call_inv ::
  "('p, 'r) app_state \<Rightarrow> (string \<times> string option) option \<Rightarrow> bool" where
  "call_inv s c =
     (if generating s
      then jobId s = None \<and>
        (\<exists>i. c = Some (i, None) \<and> filter is_generate (pending s) = [ReqGenerate i])
      else (\<forall>j. jobId s = Some j \<longrightarrow> (\<exists>i. c = Some (i, Some j))))"

section \<open>Example runs\<close>

text \<open>
  The scenario of the specification: the instruction is submitted, the server answers
  with job id \<open>abc\<close>, the first poll finds the plan ready, the user executes it, the
  next poll finds the video completed, and the user asks for a new recording.
\<close>

definition pending_abc :: "(string list, unit) JobStatus" where
  "pending_abc =
     \<lparr>id_j = ''abc'', status = ''pending'', message = ''Generating plan'',
      instruction = ''Open Notepad'', task_plan = None, video_url = None,
      video_filename = None, results = None, error_j = None,
      created_at = ''2026-01-01T00:00:00.000Z''\<rparr>"

definition generating_abc :: "(string list, unit) JobStatus" where
  "generating_abc = pending_abc\<lparr>status := ''generating_plan'', message := ''Thinking''\<rparr>"

definition plan_ready_abc :: "(string list, unit) JobStatus" where
  "plan_ready_abc =
     pending_abc\<lparr>status := ''plan_ready'', message := ''Plan ready'',
       task_plan := Some [''open'', ''type'', ''save'']\<rparr>"

definition completed_abc :: "(string list, unit) JobStatus" where
  "completed_abc =
     plan_ready_abc\<lparr>status := ''completed'', message := ''Done'',
       video_url := Some ''/media/abc.mp4'', video_filename := Some ''abc.mp4''\<rparr>"

definition polling_trace :: "(string list, unit) event list" where
  "polling_trace =
     [Submit ''Open Notepad'',
      GenerateOk ''Open Notepad'' ''abc'' ''2026-01-01T00:00:00.000Z'',
      TimerFire 1]"

definition polling_state :: "(string list, unit) app_state" where
  "polling_state =
     \<lparr>jobId = Some ''abc'', jobStatus = Some pending_abc,
      isLoading = True, error = None, showLibrary = False, pollingRef = Some 1,
      timers = [(1, ''abc'')], nextHandle = 2, lastDeps = (Some ''abc'', Some ''pending''),
      hasCleanup = True, pending = [ReqStatus ''abc''], console = []\<rparr>"

definition plan_trace :: "(string list, unit) event list" where
  "plan_trace = polling_trace @ [StatusOk ''abc'' plan_ready_abc]"

definition plan_state :: "(string list, unit) app_state" where
  "plan_state =
     \<lparr>jobId = Some ''abc'', jobStatus = Some plan_ready_abc,
      isLoading = False, error = None, showLibrary = False, pollingRef = Some 1,
      timers = [], nextHandle = 2, lastDeps = (Some ''abc'', Some ''plan_ready''),
      hasCleanup = False, pending = [], console = []\<rparr>"

definition completed_trace :: "(string list, unit) event list" where
  "completed_trace =
     plan_trace @ [Execute, ExecuteOk ''abc'', TimerFire 2, StatusOk ''abc'' completed_abc]"

definition completed_state :: "(string list, unit) app_state" where
  "completed_state =
     \<lparr>jobId = Some ''abc'', jobStatus = Some completed_abc,
      isLoading = False, error = None, showLibrary = False, pollingRef = Some 2,
      timers = [], nextHandle = 3, lastDeps = (Some ''abc'', Some ''completed''),
      hasCleanup = False, pending = [], console = []\<rparr>"

text \<open>
  Two status requests in flight at once (the first response takes longer than the two
  seconds of the interval), answered out of order: the later request is answered first,
  with the plan ready, and the earlier one afterwards, with the plan still being
  generated.
\<close>

definition late_trace :: "(string list, unit) event list" where
  "late_trace = polling_trace @ [TimerFire 1, StatusOk ''abc'' plan_ready_abc]"

definition settled_state :: "(string list, unit) app_state" where
  "settled_state = plan_state\<lparr>pending := [ReqStatus ''abc'']\<rparr>"

definition rearmed_state :: "(string list, unit) app_state" where
  "rearmed_state =
     \<lparr>jobId = Some ''abc'', jobStatus = Some generating_abc,
      isLoading = False, error = None, showLibrary = False, pollingRef = Some 2,
      timers = [(2, ''abc'')], nextHandle = 3,
      lastDeps = (Some ''abc'', Some ''generating_plan''),
      hasCleanup = True, pending = [], console = []\<rparr>"

text \<open>The state after a reset followed by the response of a poll that was in flight.\<close>

definition stale_state :: "(string list, unit) app_state" where
  "stale_state =
     \<lparr>jobId = None, jobStatus = Some plan_ready_abc,
      isLoading = False, error = None, showLibrary = True, pollingRef = Some 1,
      timers = [], nextHandle = 2, lastDeps = (None, Some ''plan_ready''),
      hasCleanup = False, pending = [], console = []\<rparr>"

text \<open>
  Two calls of \<open>handleSubmitInstruction\<close> in flight at once. Job \<open>abc\<close> is polling
  with a status request in flight when the user resets and submits \<open>Open Chrome\<close>.
  The late status response says \<open>plan_ready\<close>, which clears the loading flag, so
  the form, still shown because \<open>jobId\<close> is null, accepts \<open>Open Paint\<close>. The
  second request is answered first.
\<close>

definition overlap_trace :: "(string list, unit) event list" where
  "overlap_trace =
     polling_trace @
     [Reset, Submit ''Open Chrome'', StatusOk ''abc'' plan_ready_abc, Submit ''Open Paint'',
      GenerateOk ''Open Paint'' ''job-b'' ''2026-01-02T00:00:02.000Z'',
      GenerateOk ''Open Chrome'' ''job-a'' ''2026-01-02T00:00:03.000Z'']"

definition overlap_state :: "(string list, unit) app_state" where
  "overlap_state =
     \<lparr>jobId = Some ''job-a'',
      jobStatus = Some
        \<lparr>id_j = ''job-a'', status = ''pending'', message = ''Generating plan'',
         instruction = ''Open Chrome'', task_plan = None, video_url = None,
         video_filename = None, results = None, error_j = None,
         created_at = ''2026-01-02T00:00:03.000Z''\<rparr>,
      isLoading = True, error = None, showLibrary = False, pollingRef = Some 3,
      timers = [(3, ''job-a'')], nextHandle = 4, lastDeps = (Some ''job-a'', Some ''pending''),
      hasCleanup = True, pending = [], console = []\<rparr>"

text \<open>
  A plan creation that fails after the late status response of the job that was reset.
\<close>

definition failed_start_trace :: "(string list, unit) event list" where
  "failed_start_trace =
     polling_trace @
     [Reset, Submit ''Open Chrome'', StatusOk ''abc'' plan_ready_abc,
      GenerateFail ''Open Chrome'' None]"

definition failed_start_state :: "(string list, unit) app_state" where
  "failed_start_state =
     stale_state\<lparr>error := Some ''Error generating plan'', showLibrary := False\<rparr>"

text \<open>
  A library of three tutorials, none expanded or playing: the state after the list
  request of the mount has been answered with the three.
\<close>

definition tut :: "string \<Rightarrow> Tutorial" where
  "tut i =
     \<lparr>id_t = i, goal = ''Goal '' @ i, original_instruction = ''Instruction '' @ i,
      success_criteria = ''Done'', steps_count = 3, video_url_t = ''/media/'' @ i,
      video_filename_t = i @ ''.mp4'', download_url = ''/download/'' @ i,
      file_size_mb = 1, created_at_t = ''2026-01-01T00:00:00.000Z''\<rparr>"

definition lib_three :: lib_state where
  "lib_three =
     \<lparr>tutorials = [tut ''1'', tut ''2'', tut ''3''], loading = False, lib_error = None,
      expandedId = None, playingId = None, alerts = [], deleting = [], fetching = 0\<rparr>"

section \<open>Lemmas\<close>

subsection \<open>The trimmed instruction\<close>

lemma rev_dropWhile_rev:
  "ys = rev (dropWhile P (rev ys)) @ rev (takeWhile P (rev ys))"
  by (metis rev_append rev_rev_ident takeWhile_dropWhile_id)

lemma trim_Nil_iff: "trim x = [] \<longleftrightarrow> list_all js_whitespace x"
proof
  assume "trim x = []"
  then have a: "\<forall>c \<in> set (dropWhile js_whitespace x). js_whitespace c"
    by (simp add: trim_def)
  have "dropWhile js_whitespace x = []"
  proof (rule ccontr)
    assume n: "dropWhile js_whitespace x \<noteq> []"
    then have "\<not> js_whitespace (hd (dropWhile js_whitespace x))"
      by (rule hd_dropWhile)
    moreover from n have "hd (dropWhile js_whitespace x) \<in> set (dropWhile js_whitespace x)"
      by simp
    ultimately show False using a by blast
  qed
  then show "list_all js_whitespace x"
    by (simp add: list_all_iff)
next
  assume "list_all js_whitespace x"
  then have "dropWhile js_whitespace x = []"
    by (simp add: list_all_iff)
  then show "trim x = []"
    unfolding trim_def by (simp only: rev.simps dropWhile.simps)
qed

lemma trim_decompose:
  "x = takeWhile js_whitespace x @ trim x @
       rev (takeWhile js_whitespace (rev (dropWhile js_whitespace x)))"
proof -
  let ?y = "dropWhile js_whitespace x"
  have "?y = trim x @ rev (takeWhile js_whitespace (rev ?y))"
    unfolding trim_def by (rule rev_dropWhile_rev)
  moreover have "x = takeWhile js_whitespace x @ ?y" by simp
  ultimately show ?thesis by metis
qed

lemma trim_ends:
  assumes "trim x \<noteq> []"
  shows "\<not> js_whitespace (hd (trim x))" and "\<not> js_whitespace (last (trim x))"
proof -
  let ?y = "dropWhile js_whitespace x"
  let ?z = "dropWhile js_whitespace (rev ?y)"
  from assms have z: "?z \<noteq> []" by (simp add: trim_def)
  then have "\<not> js_whitespace (hd ?z)" by (rule hd_dropWhile)
  with z show "\<not> js_whitespace (last (trim x))"
    by (simp add: trim_def last_rev)
  have y: "?y \<noteq> []"
  proof
    assume "?y = []"
    then have "?z = []" by (simp only: rev.simps dropWhile.simps)
    with z show False by simp
  qed
  then have hy: "\<not> js_whitespace (hd ?y)" by (rule hd_dropWhile)
  have "?y = trim x @ rev (takeWhile js_whitespace (rev ?y))"
    unfolding trim_def by (rule rev_dropWhile_rev)
  with assms have "hd ?y = hd (trim x)" by (metis hd_append2)
  with hy show "\<not> js_whitespace (hd (trim x))" by simp
qed

lemma takeWhile_all: "list_all P (takeWhile P xs)"
  by (induction xs) auto

subsection \<open>The render after a callback\<close>

text \<open>
  The render establishes the invariant from what holds at the end of a callback, and
  it changes no state cell.
\<close>

lemma should_poll_deps: "should_poll s = poll_deps (deps s)"
  by (simp add: should_poll_def poll_deps_def deps_def split: option.splits)

lemma render_inv: "pre_inv m \<Longrightarrow> poll_inv (render m)"
proof (cases "lastDeps m = deps m")
  case True
  assume "pre_inv m"
  with True show ?thesis
    by (auto simp: render_def poll_inv_def pre_inv_def should_poll_deps deps_def)
next
  case False
  assume p: "pre_inv m"
  let ?c = "(run_cleanup m)\<lparr>lastDeps := deps m\<rparr>"
  from p have t: "timers ?c = []"
    by (auto simp: pre_inv_def run_cleanup_def clear_polling_def clearInterval_def
        split: if_splits)
  have d: "deps ?c = deps m" "jobId ?c = jobId m" "jobStatus ?c = jobStatus m"
    by (auto simp: deps_def run_cleanup_def clear_polling_def clearInterval_def
        split: option.splits)
  have sp: "should_poll ?c = should_poll m"
    by (simp add: should_poll_def d)
  have "poll_inv (polling_effect ?c)"
    using t d sp
    by (auto simp: poll_inv_def polling_effect_def arm_def deps_def should_poll_def truthy_def
        split: option.splits)
  with False show ?thesis by (simp add: render_def)
qed

lemma render_cells [simp]:
  "jobId (render s) = jobId s" "jobStatus (render s) = jobStatus s"
  "error (render s) = error s" "isLoading (render s) = isLoading s"
  "showLibrary (render s) = showLibrary s" "pending (render s) = pending s"
  "console (render s) = console s"
  by (auto simp: render_def polling_effect_def arm_def run_cleanup_def clear_polling_def
      clearInterval_def split: option.splits)

lemma render_same_deps: "lastDeps s = deps s \<Longrightarrow> render s = s"
  by (simp add: render_def)

subsection \<open>Every callback keeps the invariant\<close>

lemma inv_pre: "poll_inv s \<Longrightarrow> pre_inv s"
  by (auto simp: poll_inv_def pre_inv_def should_poll_deps deps_def)

text \<open>A handler that leaves the timers, the ref and the bookkeeping of the effect alone.\<close>

lemma pre_inv_frame:
  assumes "poll_inv s"
    and "timers m = timers s" "pollingRef m = pollingRef s"
    and "lastDeps m = lastDeps s" "hasCleanup m = hasCleanup s"
  shows "pre_inv m"
  using assms by (auto simp: poll_inv_def pre_inv_def should_poll_deps deps_def)

lemma pre_inv_submit_start: "poll_inv s \<Longrightarrow> pre_inv (handleSubmitInstruction_start i s)"
  by (rule pre_inv_frame[of s]) (simp_all add: handleSubmitInstruction_start_def)

lemma pre_inv_submit_ok: "poll_inv s \<Longrightarrow> pre_inv (handleSubmitInstruction_ok i j n s)"
  by (rule pre_inv_frame[of s]) (simp_all add: handleSubmitInstruction_ok_def)

lemma pre_inv_submit_fail: "poll_inv s \<Longrightarrow> pre_inv (handleSubmitInstruction_fail i e s)"
  by (rule pre_inv_frame[of s]) (simp_all add: handleSubmitInstruction_fail_def)

lemma pre_inv_poll_tick: "poll_inv s \<Longrightarrow> pre_inv (poll_tick j s)"
  by (rule pre_inv_frame[of s]) (simp_all add: poll_tick_def)

lemma pre_inv_poll_fail: "poll_inv s \<Longrightarrow> pre_inv (poll_fail j e s)"
  by (rule pre_inv_frame[of s]) (simp_all add: poll_fail_def)

lemma pre_inv_save_start: "poll_inv s \<Longrightarrow> pre_inv (handleSaveTaskPlan_start p s)"
  by (rule pre_inv_frame[of s]) (auto simp: handleSaveTaskPlan_start_def split: option.splits)

lemma pre_inv_save_ok: "poll_inv s \<Longrightarrow> pre_inv (handleSaveTaskPlan_ok j p s)"
  by (rule pre_inv_frame[of s]) (simp_all add: handleSaveTaskPlan_ok_def)

lemma pre_inv_save_fail: "poll_inv s \<Longrightarrow> pre_inv (handleSaveTaskPlan_fail j p e s)"
  by (rule pre_inv_frame[of s]) (simp_all add: handleSaveTaskPlan_fail_def)

lemma pre_inv_execute_start: "poll_inv s \<Longrightarrow> pre_inv (handleExecute_start s)"
  by (rule pre_inv_frame[of s]) (auto simp: handleExecute_start_def split: option.splits)

lemma pre_inv_execute_ok: "poll_inv s \<Longrightarrow> pre_inv (handleExecute_ok j s)"
  by (rule pre_inv_frame[of s]) (simp_all add: handleExecute_ok_def)

lemma pre_inv_execute_fail: "poll_inv s \<Longrightarrow> pre_inv (handleExecute_fail j e s)"
  by (rule pre_inv_frame[of s]) (simp_all add: handleExecute_fail_def)

lemma pre_inv_regenerate_start: "poll_inv s \<Longrightarrow> pre_inv (handleRegenerate_start s)"
  by (rule pre_inv_frame[of s]) (auto simp: handleRegenerate_start_def split: option.splits)

lemma pre_inv_regenerate_ok: "poll_inv s \<Longrightarrow> pre_inv (handleRegenerate_ok j s)"
  by (rule pre_inv_frame[of s]) (simp_all add: handleRegenerate_ok_def)

lemma pre_inv_regenerate_fail: "poll_inv s \<Longrightarrow> pre_inv (handleRegenerate_fail j e s)"
  by (rule pre_inv_frame[of s]) (simp_all add: handleRegenerate_fail_def)

text \<open>The two handlers that clear the interval themselves.\<close>

lemma pre_inv_poll_ok: "poll_inv s \<Longrightarrow> pre_inv (poll_ok j d s)"
proof (cases "terminal (status d)")
  case False
  assume "poll_inv s"
  then show ?thesis
    by (rule pre_inv_frame[of s]) (simp_all add: poll_ok_def Let_def False)
next
  case True
  assume "poll_inv s"
  with True show ?thesis
    by (auto simp: poll_inv_def pre_inv_def should_poll_deps poll_deps_def deps_def
        poll_ok_def Let_def clear_polling_def clearInterval_def
        split: option.splits)
qed

lemma pre_inv_resetAll: "poll_inv s \<Longrightarrow> pre_inv (resetAll s)"
  by (auto simp: poll_inv_def pre_inv_def should_poll_deps poll_deps_def deps_def truthy_def
      resetAll_def clear_polling_def clearInterval_def
      split: option.splits)

lemmas pre_inv_handlers =
  pre_inv_submit_start pre_inv_submit_ok pre_inv_submit_fail pre_inv_poll_tick
  pre_inv_poll_ok pre_inv_poll_fail pre_inv_save_start pre_inv_save_ok pre_inv_save_fail
  pre_inv_execute_start pre_inv_execute_ok pre_inv_execute_fail pre_inv_regenerate_start
  pre_inv_regenerate_ok pre_inv_regenerate_fail pre_inv_resetAll

lemma callback_pre_inv: "poll_inv s \<Longrightarrow> callback e s = Some m \<Longrightarrow> pre_inv m"
  by (cases e) (auto simp: awaiting_def pre_inv_handlers split: if_splits option.splits)

lemma step_inv: "poll_inv s \<Longrightarrow> step e s = Some s' \<Longrightarrow> poll_inv s'"
  by (auto simp: step_def dest: callback_pre_inv intro: render_inv)

lemma run_inv: "poll_inv s \<Longrightarrow> run es s = Some s' \<Longrightarrow> poll_inv s'"
proof (induction es arbitrary: s)
  case Nil
  then show ?case by simp
next
  case (Cons e es)
  then show ?case by (auto split: option.splits dest: step_inv)
qed

lemma init_inv: "poll_inv init"
  by (simp add: poll_inv_def init_def deps_def should_poll_def truthy_def)

lemma reachable_inv: "run es init = Some s \<Longrightarrow> poll_inv s"
  using init_inv by (rule run_inv)

lemma run_append:
  "run (es @ es') s = (case run es s of None \<Rightarrow> None | Some s' \<Rightarrow> run es' s')"
  by (induction es arbitrary: s) (auto split: option.splits)

subsection \<open>Reachable states\<close>

lemma pre_inv_timers:
  assumes "pre_inv m"
  shows "length (timers m) \<le> 1" and "timers (run_cleanup m) = []"
  using assms
  by (auto simp: pre_inv_def run_cleanup_def clear_polling_def clearInterval_def
      split: if_splits)

lemma poll_inv_timers:
  assumes "poll_inv s"
  shows "timers s \<noteq> [] \<longleftrightarrow> should_poll s"
    and "length (timers s) \<le> 1"
    and "t \<in> set (timers s) \<Longrightarrow> jobId s = Some (snd t) \<and> pollingRef s = Some (fst t)"
  using assms by (auto simp: poll_inv_def split: if_splits)

lemma no_job_no_timer: "poll_inv s \<Longrightarrow> jobId s = None \<Longrightarrow> timers s = []"
  by (auto simp: poll_inv_def should_poll_def truthy_def split: if_splits)

lemma step_unchanged_deps:
  assumes "poll_inv s" and "callback e s = Some m" and "deps m = deps s"
    and "lastDeps m = lastDeps s"
  shows "step e s = Some m"
  using assms by (simp add: step_def render_def poll_inv_def)

lemma last_answered_snoc:
  "last_answered (es @ [e]) =
     (case e of GenerateOk instr job_id now \<Rightarrow> Some job_id | _ \<Rightarrow> last_answered es)"
  by (induction es) (auto split: option.splits event.splits)

lemma step_jobId:
  assumes "step e s = Some s'"
  shows "jobId s' =
     (case e of GenerateOk instr job_id now \<Rightarrow> Some job_id | Submit instr \<Rightarrow> None
      | Reset \<Rightarrow> None | _ \<Rightarrow> jobId s)"
  using assms
  by (cases e)
    (auto simp: step_def awaiting_def handleSubmitInstruction_start_def
      handleSubmitInstruction_ok_def handleSubmitInstruction_fail_def poll_tick_def
      poll_ok_def poll_fail_def handleSaveTaskPlan_start_def handleSaveTaskPlan_ok_def
      handleSaveTaskPlan_fail_def handleExecute_start_def handleExecute_ok_def
      handleExecute_fail_def handleRegenerate_start_def handleRegenerate_ok_def
      handleRegenerate_fail_def resetAll_def clear_polling_def clearInterval_def Let_def
      split: if_splits option.splits)

lemma jobId_last_answered:
  "run es init = Some s \<Longrightarrow> jobId s = Some j \<Longrightarrow> last_answered es = Some j"
proof (induction es arbitrary: s j rule: rev_induct)
  case Nil
  then show ?case by (auto simp: init_def)
next
  case (snoc e es)
  from snoc.prems(1) obtain s0 where r: "run es init = Some s0" and st: "step e s0 = Some s"
    by (auto simp: run_append split: option.splits)
  note j = step_jobId [OF st]
  show ?case
  proof (cases "\<exists>instr job_id now. e = GenerateOk instr job_id now")
    case True
    with j snoc.prems(2) show ?thesis by (auto simp: last_answered_snoc)
  next
    case False
    then have ls: "last_answered (es @ [e]) = last_answered es"
      by (cases e) (auto simp: last_answered_snoc)
    from False j snoc.prems(2) have "jobId s0 = Some j"
      by (cases e) auto
    with r have "last_answered es = Some j" by (rule snoc.IH)
    with ls show ?thesis by simp
  qed
qed

lemma step_status_ok:
  assumes "ReqStatus jid \<in> set (pending s)"
  shows "\<exists>s'. step (StatusOk jid d) s = Some s' \<and> jobStatus s' = Some d \<and>
           jobId s' = jobId s"
  using assms
  by (simp add: step_def awaiting_def poll_ok_def Let_def clear_polling_def clearInterval_def
      split: option.splits)

lemma step_deps:
  assumes "step e s = Some s'"
  shows "deps s' =
     (case e of
        Submit instr \<Rightarrow> (None, None)
      | Reset \<Rightarrow> (None, None)
      | GenerateOk instr job_id now \<Rightarrow> (Some job_id, Some ''pending'')
      | StatusOk jid d \<Rightarrow> (jobId s, Some (status d))
      | ExecuteOk jid \<Rightarrow> (jobId s, map_option (\<lambda>j. ''recording'') (jobStatus s))
      | RegenerateOk jid \<Rightarrow> (jobId s, map_option (\<lambda>j. ''recording'') (jobStatus s))
      | _ \<Rightarrow> deps s)"
  using assms
  by (cases e)
    (auto simp: step_def awaiting_def deps_def handleSubmitInstruction_start_def
      handleSubmitInstruction_ok_def handleSubmitInstruction_fail_def poll_tick_def
      poll_ok_def poll_fail_def handleSaveTaskPlan_start_def handleSaveTaskPlan_ok_def
      handleSaveTaskPlan_fail_def handleExecute_start_def handleExecute_ok_def
      handleExecute_fail_def handleRegenerate_start_def handleRegenerate_ok_def
      handleRegenerate_fail_def resetAll_def clear_polling_def clearInterval_def Let_def
      option.map_comp comp_def
      split: if_splits option.splits)

lemma timer_fire_needs_timer: "timers s = [] \<Longrightarrow> step (TimerFire h) s = None"
  by (simp add: step_def)

lemma rearm_cases:
  assumes inv: "poll_inv s" and t: "timers s = []" and st: "step e s = Some s'"
    and t': "timers s' \<noteq> []"
  shows "(\<exists>jid. e = ExecuteOk jid \<or> e = RegenerateOk jid) \<or>
         (\<exists>instr job_id now. e = GenerateOk instr job_id now) \<or>
         (\<exists>jid d. e = StatusOk jid d \<and> \<not> terminal (status d))"
proof -
  from inv st have inv': "poll_inv s'" by (rule step_inv)
  from inv t have n: "\<not> poll_deps (deps s)"
    using poll_inv_timers(1) [OF inv] by (simp add: should_poll_deps)
  from inv' t' have y: "poll_deps (deps s')"
    using poll_inv_timers(1) [OF inv'] by (simp add: should_poll_deps)
  note d = step_deps [OF st]
  show ?thesis
  proof (cases e)
    case (TimerFire h)
    with t st show ?thesis by (simp add: timer_fire_needs_timer)
  next
    case (StatusOk jid d')
    with d y show ?thesis by (auto simp: poll_deps_def)
  qed (use d y n in \<open>auto simp: poll_deps_def truthy_def\<close>)
qed

lemma rearm_after_recording:
  assumes inv: "poll_inv s" and st: "step e s = Some s'"
    and e: "e = ExecuteOk jid \<or> e = RegenerateOk jid"
    and c: "jobId s = Some cur" "cur \<noteq> []" "jobStatus s = Some j"
  shows "\<exists>h. timers s' = [(h, cur)]"
proof -
  from inv st have inv': "poll_inv s'" by (rule step_inv)
  from step_deps [OF st] e c have d: "deps s' = (Some cur, Some ''recording'')" by auto
  then have "should_poll s'"
    by (simp add: should_poll_deps poll_deps_def truthy_def c terminal_def)
  moreover from d have "jobId s' = Some cur" by (simp add: deps_def)
  ultimately show ?thesis using inv' by (auto simp: poll_inv_def)
qed

subsection \<open>The example runs\<close>

lemmas app_eval =
  init_def step_def awaiting_def render_def deps_def run_cleanup_def polling_effect_def
  should_poll_def truthy_def terminal_def arm_def clear_polling_def clearInterval_def
  handleSubmitInstruction_start_def handleSubmitInstruction_ok_def
  handleSubmitInstruction_fail_def poll_tick_def poll_ok_def poll_fail_def
  handleSaveTaskPlan_start_def handleSaveTaskPlan_ok_def handleSaveTaskPlan_fail_def
  handleExecute_start_def handleExecute_ok_def handleExecute_fail_def
  handleRegenerate_start_def handleRegenerate_ok_def handleRegenerate_fail_def
  resetAll_def or_default_def

lemmas example_defs =
  pending_abc_def generating_abc_def plan_ready_abc_def completed_abc_def
  polling_trace_def polling_state_def plan_trace_def plan_state_def
  completed_trace_def completed_state_def late_trace_def settled_state_def
  rearmed_state_def stale_state_def overlap_trace_def overlap_state_def
  failed_start_trace_def failed_start_state_def

lemma polling_trace_run: "run polling_trace init = Some polling_state"
  by (simp add: example_defs app_eval)

lemma plan_trace_run: "run plan_trace init = Some plan_state"
  unfolding plan_trace_def run_append polling_trace_run
  by (simp add: example_defs app_eval)

lemma completed_trace_run: "run completed_trace init = Some completed_state"
  unfolding completed_trace_def run_append plan_trace_run
  by (simp add: example_defs app_eval)

lemma late_trace_run: "run late_trace init = Some settled_state"
  unfolding late_trace_def run_append polling_trace_run
  by (simp add: example_defs app_eval)

lemma late_response_step:
  "step (StatusOk ''abc'' generating_abc) settled_state = Some rearmed_state"
  by (simp add: example_defs app_eval)

lemma stale_run: "run (polling_trace @ [Reset, StatusOk ''abc'' plan_ready_abc]) init = Some stale_state"
  unfolding run_append polling_trace_run
  by (simp add: example_defs app_eval)

lemma execute_click_run:
  "run (plan_trace @ [Execute]) init =
     Some (plan_state\<lparr>isLoading := True, pending := [ReqExecute ''abc'']\<rparr>)"
  unfolding run_append plan_trace_run by (simp add: example_defs app_eval)

lemma poll_plan_ready_step: "step (StatusOk ''abc'' plan_ready_abc) polling_state = Some plan_state"
  by (simp add: example_defs app_eval)

lemma overlap_trace_run: "run overlap_trace init = Some overlap_state"
  unfolding overlap_trace_def run_append polling_trace_run
  by (simp add: example_defs app_eval)

lemma overlap_form_enabled:
  "map_option (\<lambda>s. (jobId s, isLoading s)) (run (take 6 overlap_trace) init) = Some (None, False)"
  by (simp add: example_defs app_eval)

lemma failed_start_run: "run failed_start_trace init = Some failed_start_state"
  unfolding failed_start_trace_def run_append polling_trace_run
  by (simp add: example_defs app_eval)

lemma polling_trace_overlap_free: "overlap_free polling_trace init"
  by (simp add: example_defs app_eval generating_def is_generate_def)

lemmas lib_eval =
  lib_init_def lib_three_def tut_def capture_def handleDelete_click_def handleDelete_ok_def
  handleDelete_fail_def toggleExpand_def togglePlay_def or_default_def
  fetchTutorials_start_def fetchTutorials_ok_def fetchTutorials_fail_def

lemma lib_three_run: "lib_run [FetchOk [tut ''1'', tut ''2'', tut ''3'']] lib_init = Some lib_three"
  by (simp add: lib_eval)

subsection \<open>A delete with no other callback before its response\<close>

lemma handleDelete_in_one_render:
  "tutorials (handleDelete i True (Inr ()) s) = filter (\<lambda>t. id_t t \<noteq> i) (tutorials s)"
  "expandedId (handleDelete i True (Inr ()) s) =
     (if expandedId s = Some i then None else expandedId s)"
  "playingId (handleDelete i True (Inr ()) s) =
     (if playingId s = Some i then None else playingId s)"
  "tutorials (handleDelete i True (Inl err) s) = tutorials s"
  "alerts (handleDelete i True (Inl err) s) =
     alerts s @ [or_default err ''Failed to delete tutorial'']"
  "handleDelete i False outcome s = s"
  by (simp_all add: handleDelete_def handleDelete_ok_def handleDelete_fail_def
      handleDelete_click_def capture_def)

subsection \<open>Calls that do not overlap\<close>

lemma generating_filter: "generating s \<longleftrightarrow> filter is_generate (pending s) \<noteq> []"
  by (auto simp: generating_def list_ex_iff filter_empty_conv)

lemma callback_generate_requests:
  assumes "callback e s = Some m"
  shows "filter is_generate (pending m) =
     (case e of
        Submit instr \<Rightarrow> filter is_generate (pending s) @ [ReqGenerate instr]
      | GenerateOk instr job_id now \<Rightarrow> remove1 (ReqGenerate instr) (filter is_generate (pending s))
      | GenerateFail instr err \<Rightarrow> remove1 (ReqGenerate instr) (filter is_generate (pending s))
      | _ \<Rightarrow> filter is_generate (pending s))"
proof -
  have keep: "filter is_generate (remove1 r xs) = filter is_generate xs"
    if "\<not> is_generate r" for r :: "'a request" and xs
    using that by (induction xs) auto
  show ?thesis
    using assms
    by (cases e)
      (auto simp: awaiting_def is_generate_def filter_remove1 keep
        handleSubmitInstruction_start_def handleSubmitInstruction_ok_def
        handleSubmitInstruction_fail_def poll_tick_def poll_ok_def poll_fail_def
        handleSaveTaskPlan_start_def handleSaveTaskPlan_ok_def handleSaveTaskPlan_fail_def
        handleExecute_start_def handleExecute_ok_def handleExecute_fail_def
        handleRegenerate_start_def handleRegenerate_ok_def handleRegenerate_fail_def
        resetAll_def clear_polling_def clearInterval_def Let_def
        split: if_splits option.splits)
qed

lemma step_generate_requests:
  assumes "step e s = Some s'"
  shows "filter is_generate (pending s') =
     (case e of
        Submit instr \<Rightarrow> filter is_generate (pending s) @ [ReqGenerate instr]
      | GenerateOk instr job_id now \<Rightarrow> remove1 (ReqGenerate instr) (filter is_generate (pending s))
      | GenerateFail instr err \<Rightarrow> remove1 (ReqGenerate instr) (filter is_generate (pending s))
      | _ \<Rightarrow> filter is_generate (pending s))"
proof -
  from assms obtain m where c: "callback e s = Some m" and s': "s' = render m"
    by (auto simp: step_def)
  from callback_generate_requests [OF c] s' show ?thesis by simp
qed

lemma step_enabled_generate:
  assumes "step e s = Some s'"
    and "e = GenerateOk instr job_id now \<or> e = GenerateFail instr err"
  shows "ReqGenerate instr \<in> set (filter is_generate (pending s))"
  using assms by (auto simp: step_def awaiting_def is_generate_def split: if_splits)

lemma step_call_inv:
  assumes inv: "call_inv s c" and st: "step e s = Some s'"
    and free: "\<And>instr. e = Submit instr \<Longrightarrow> \<not> generating s"
  shows "call_inv s' (note_call c e)"
proof -
  note g = step_generate_requests [OF st]
  note j = step_jobId [OF st]
  show ?thesis
  proof (cases e)
    case (Submit instr)
    with free have "filter is_generate (pending s) = []" by (simp add: generating_filter)
    with g j Submit show ?thesis
      by (simp add: call_inv_def generating_filter note_call_def)
  next
    case (GenerateOk instr job_id now)
    with st have m: "ReqGenerate instr \<in> set (filter is_generate (pending s))"
      using step_enabled_generate by blast
    then have "generating s" by (metis generating_filter empty_iff empty_set)
    with inv obtain i where c: "c = Some (i, None)"
      and f: "filter is_generate (pending s) = [ReqGenerate i]"
      by (auto simp: call_inv_def)
    from m f have "i = instr" by simp
    with g j GenerateOk c f show ?thesis
      by (simp add: call_inv_def generating_filter note_call_def)
  next
    case (GenerateFail instr err)
    with st have m: "ReqGenerate instr \<in> set (filter is_generate (pending s))"
      using step_enabled_generate by blast
    then have "generating s" by (metis generating_filter empty_iff empty_set)
    with inv obtain i where c: "c = Some (i, None)"
      and f: "filter is_generate (pending s) = [ReqGenerate i]" and n: "jobId s = None"
      by (auto simp: call_inv_def)
    from m f have "i = instr" by simp
    with g j GenerateFail c f n show ?thesis
      by (simp add: call_inv_def generating_filter note_call_def)
  next
    case Reset
    with g j inv show ?thesis
      by (auto simp: call_inv_def generating_filter note_call_def)
  qed (use g j inv in \<open>auto simp: call_inv_def generating_filter note_call_def\<close>)
qed

lemma run_call_inv:
  "call_inv s c \<Longrightarrow> run es s = Some s' \<Longrightarrow> overlap_free es s \<Longrightarrow>
   call_inv s' (foldl note_call c es)"
proof (induction es arbitrary: s c)
  case Nil
  then show ?case by simp
next
  case (Cons e es)
  from Cons.prems(2) obtain s1 where st: "step e s = Some s1" and r: "run es s1 = Some s'"
    by (auto split: option.splits)
  from Cons.prems(3) st have free: "\<And>instr. e = Submit instr \<Longrightarrow> \<not> generating s"
    and rest: "overlap_free es s1"
    by auto
  from Cons.prems(1) st free have "call_inv s1 (note_call c e)" by (rule step_call_inv)
  from this r rest have "call_inv s' (foldl note_call (note_call c e) es)" by (rule Cons.IH)
  then show ?case by simp
qed

lemma init_call_inv: "call_inv init None"
  by (simp add: call_inv_def generating_def init_def)

lemma jobId_started_job:
  assumes "run es init = Some s" and "overlap_free es init" and "jobId s = Some j"
  shows "started_job es = Some j"
proof -
  from init_call_inv assms(1,2) have "call_inv s (foldl note_call None es)"
    by (rule run_call_inv)
  with assms(3) show ?thesis
    by (auto simp: call_inv_def started_job_def split: if_splits)
qed

subsection \<open>Callbacks that do not write the job\<close>

lemma step_quiet_no_job:
  assumes "step e s = Some s'" and "\<not> writes_job e"
    and "jobId s = None" and "jobStatus s = None"
  shows "jobId s' = None \<and> jobStatus s' = None"
  using assms
  by (cases e)
    (auto simp: step_def awaiting_def writes_job_def handleSubmitInstruction_start_def
      handleSubmitInstruction_fail_def poll_tick_def poll_fail_def
      handleSaveTaskPlan_start_def handleSaveTaskPlan_ok_def handleSaveTaskPlan_fail_def
      handleExecute_start_def handleExecute_ok_def handleExecute_fail_def
      handleRegenerate_start_def handleRegenerate_ok_def handleRegenerate_fail_def
      resetAll_def clear_polling_def clearInterval_def
      split: if_splits option.splits)

lemma run_quiet_no_job:
  "run es s = Some s' \<Longrightarrow> list_all (\<lambda>e. \<not> writes_job e) es \<Longrightarrow>
   jobId s = None \<Longrightarrow> jobStatus s = None \<Longrightarrow> jobId s' = None \<and> jobStatus s' = None"
proof (induction es arbitrary: s)
  case Nil
  then show ?case by simp
next
  case (Cons e es)
  from Cons.prems(1) obtain s1 where st: "step e s = Some s1" and r: "run es s1 = Some s'"
    by (auto split: option.splits)
  from Cons.prems(2) have q: "\<not> writes_job e" "list_all (\<lambda>e. \<not> writes_job e) es" by auto
  from step_quiet_no_job [OF st q(1) Cons.prems(3,4)]
  have "jobId s1 = None" "jobStatus s1 = None" by auto
  with r q(2) show ?case by (rule Cons.IH)
qed

lemma step_generate_fail:
  assumes "step (GenerateFail instr err) s = Some s'"
  shows "jobId s' = jobId s" "jobStatus s' = jobStatus s"
    "error s' = Some (or_default err ''Error generating plan'')" "\<not> isLoading s'"
  using assms
  by (auto simp: step_def awaiting_def handleSubmitInstruction_fail_def split: if_splits)

lemma or_default_nonempty: "d \<noteq> [] \<Longrightarrow> or_default v d \<noteq> []"
  by (simp add: or_default_def split: option.splits)

section \<open>The claims\<close>

text \<open>
  C1, as the code has it. In every state the component can reach, at most one interval
  timer is armed; an armed timer is the one \<open>pollingRef\<close> points to, and the job id
  its callback polls is the current \<open>jobId\<close>, which is the id returned by the
  plan-creation response that was processed last. When no call of
  \<open>handleSubmitInstruction\<close> in the run was made while a plan-creation request was in
  flight, that id is the job of the most recent call. Submitting a new instruction and
  resetting each leave no timer armed. At the end of every callback at most one timer is
  armed, and the cleanup that precedes a new run of the effect leaves none, so the effect
  never arms a second timer beside a live one.
\<close>

theorem single_poll_timer:
  assumes "run es init = Some s"
  shows "length (timers s) \<le> 1 \<and>
    (\<forall>t \<in> set (timers s).
       jobId s = Some (snd t) \<and> last_answered es = Some (snd t) \<and> pollingRef s = Some (fst t)) \<and>
    (overlap_free es init \<longrightarrow> (\<forall>t \<in> set (timers s). started_job es = Some (snd t))) \<and>
    (\<forall>instr. \<exists>s'. step (Submit instr) s = Some s' \<and> timers s' = []) \<and>
    (\<exists>s'. step Reset s = Some s' \<and> timers s' = []) \<and>
    (\<forall>e m. callback e s = Some m \<longrightarrow>
       length (timers m) \<le> 1 \<and> timers (run_cleanup m) = [])"
proof -
  from assms have inv: "poll_inv s" by (rule reachable_inv)
  have a: "length (timers s) \<le> 1" using inv by (rule poll_inv_timers)
  have b: "\<forall>t \<in> set (timers s).
       jobId s = Some (snd t) \<and> last_answered es = Some (snd t) \<and> pollingRef s = Some (fst t)"
    using poll_inv_timers(3) [OF inv] jobId_last_answered [OF assms] by blast
  have b': "overlap_free es init \<longrightarrow> (\<forall>t \<in> set (timers s). started_job es = Some (snd t))"
    using poll_inv_timers(3) [OF inv] jobId_started_job [OF assms] by blast
  have c: "\<exists>s'. step (Submit instr) s = Some s' \<and> timers s' = []" for instr
  proof -
    obtain s' where st: "step (Submit instr) s = Some s'" by (simp add: step_def)
    from inv st have "poll_inv s'" by (rule step_inv)
    moreover from step_jobId [OF st] have "jobId s' = None" by simp
    ultimately have "timers s' = []" by (rule no_job_no_timer)
    with st show ?thesis by blast
  qed
  have d: "\<exists>s'. step Reset s = Some s' \<and> timers s' = []"
  proof -
    obtain s' where st: "step Reset s = Some s'" by (simp add: step_def)
    from inv st have "poll_inv s'" by (rule step_inv)
    moreover from step_jobId [OF st] have "jobId s' = None" by simp
    ultimately have "timers s' = []" by (rule no_job_no_timer)
    with st show ?thesis by blast
  qed
  have e: "\<forall>e m. callback e s = Some m \<longrightarrow>
       length (timers m) \<le> 1 \<and> timers (run_cleanup m) = []"
    using callback_pre_inv [OF inv] pre_inv_timers by blast
  from a b b' c d e show ?thesis by blast
qed

theorem single_poll_timer_witness:
  "run polling_trace init = Some polling_state \<and> overlap_free polling_trace init \<and>
   timers polling_state = [(1, ''abc'')] \<and> last_answered polling_trace = Some ''abc'' \<and>
   started_job polling_trace = Some ''abc'' \<and>
   map_option timers (step (Submit ''Open Chrome'') polling_state) = Some [] \<and>
   map_option timers (step Reset polling_state) = Some [] \<and>
   run (polling_trace @ [Reset, Submit ''Open Chrome'',
          GenerateOk ''Open Chrome'' ''xyz'' ''2026-01-02T00:00:00.000Z'']) init =
     Some (polling_state
       \<lparr>jobId := Some ''xyz'',
        jobStatus := Some (pending_abc\<lparr>id_j := ''xyz'', instruction := ''Open Chrome'',
           created_at := ''2026-01-02T00:00:00.000Z''\<rparr>),
        pollingRef := Some 2, timers := [(2, ''xyz'')], nextHandle := 3,
        lastDeps := (Some ''xyz'', Some ''pending'')\<rparr>)"
proof -
  note t = single_poll_timer [OF polling_trace_run]
  have 1: "timers polling_state = [(1, ''abc'')]" by (simp add: polling_state_def)
  from t 1 have 2: "last_answered polling_trace = Some ''abc''" by simp
  from t 1 polling_trace_overlap_free have sj: "started_job polling_trace = Some ''abc''"
    by simp
  from t have 3: "map_option timers (step (Submit ''Open Chrome'') polling_state) = Some []"
    by (metis option.simps(9))
  from t have 4: "map_option timers (step Reset polling_state) = Some []"
    by (metis option.simps(9))
  have 5: "run (polling_trace @ [Reset, Submit ''Open Chrome'',
          GenerateOk ''Open Chrome'' ''xyz'' ''2026-01-02T00:00:00.000Z'']) init =
     Some (polling_state
       \<lparr>jobId := Some ''xyz'',
        jobStatus := Some (pending_abc\<lparr>id_j := ''xyz'', instruction := ''Open Chrome'',
           created_at := ''2026-01-02T00:00:00.000Z''\<rparr>),
        pollingRef := Some 2, timers := [(2, ''xyz'')], nextHandle := 3,
        lastDeps := (Some ''xyz'', Some ''pending'')\<rparr>)"
    unfolding run_append polling_trace_run by (simp add: example_defs app_eval)
  from polling_trace_run polling_trace_overlap_free 1 2 sj 3 4 5 show ?thesis by simp
qed

text \<open>
  The counterexample to C1 as stated. After the sixth callback of the run \<open>jobId\<close> is
  null and the loading flag is off, so the form takes a second instruction while the
  request of the first is in flight. The second call, \<open>Open Paint\<close>, is answered with
  \<open>job-b\<close> and then the first, \<open>Open Chrome\<close>, with \<open>job-a\<close>. The one armed timer
  polls \<open>job-a\<close>, the job of the older call, while the job started most recently is
  \<open>job-b\<close>.
\<close>

theorem overlapping_calls_poll_older_job:
  "map_option (\<lambda>s. (jobId s, isLoading s)) (run (take 6 overlap_trace) init) =
     Some (None, False) \<and>
   run overlap_trace init = Some overlap_state \<and>
   timers overlap_state = [(3, ''job-a'')] \<and>
   map_option instruction (jobStatus overlap_state) = Some ''Open Chrome'' \<and>
   started_job overlap_trace = Some ''job-b'' \<and>
   last_answered overlap_trace = Some ''job-a''"
proof -
  have "started_job overlap_trace = Some ''job-b''"
    by (simp add: overlap_trace_def polling_trace_def started_job_def note_call_def)
  moreover have "last_answered overlap_trace = Some ''job-a''"
    by (simp add: overlap_trace_def polling_trace_def)
  ultimately show ?thesis
    using overlap_trace_run overlap_form_enabled by (simp add: overlap_state_def)
qed

text \<open>
  C2, as the code has it. The claim that the response of a poll in flight at a reset
  leaves \<open>jobStatus\<close> null does not hold: \<open>clearInterval\<close> stops further ticks, but
  the callback that is already awaiting its response runs on, and it calls
  \<open>setJobStatus\<close> without looking at the current job. What holds: in every reachable
  state with a status request in flight, a reset clears \<open>jobId\<close> and \<open>jobStatus\<close>,
  leaves no timer armed and leaves the request in flight; when the response arrives
  right after the reset, \<open>jobStatus\<close> becomes the response body while \<open>jobId\<close>
  stays null and no timer is armed; and whatever happens between the reset and the
  arrival, the response body is written to \<open>jobStatus\<close>.
\<close>

theorem reset_keeps_inflight_response:
  assumes "run es init = Some s" and "ReqStatus jid \<in> set (pending s)"
  shows "\<exists>s1. step Reset s = Some s1 \<and> jobId s1 = None \<and> jobStatus s1 = None \<and>
           timers s1 = [] \<and> ReqStatus jid \<in> set (pending s1) \<and>
           (\<exists>s2. step (StatusOk jid d) s1 = Some s2 \<and> jobStatus s2 = Some d \<and>
              jobId s2 = None \<and> timers s2 = []) \<and>
           (\<forall>es' s2. run es' s1 = Some s2 \<and> ReqStatus jid \<in> set (pending s2) \<longrightarrow>
              (\<exists>s3. step (StatusOk jid d) s2 = Some s3 \<and> jobStatus s3 = Some d \<and>
                 jobId s3 = jobId s2))"
proof -
  from assms(1) have inv: "poll_inv s" by (rule reachable_inv)
  obtain s1 where st: "step Reset s = Some s1" by (simp add: step_def)
  from inv st have inv1: "poll_inv s1" by (rule step_inv)
  from st have c1: "jobId s1 = None" "jobStatus s1 = None" "pending s1 = pending s"
    by (auto simp: step_def resetAll_def clear_polling_def clearInterval_def
        split: option.splits)
  from inv1 c1(1) have t1: "timers s1 = []" by (rule no_job_no_timer)
  from assms(2) c1(3) have p1: "ReqStatus jid \<in> set (pending s1)" by simp
  from step_status_ok [OF p1, of d] obtain s2
    where st2: "step (StatusOk jid d) s1 = Some s2" and j2: "jobStatus s2 = Some d"
      and i2: "jobId s2 = None"
    using c1(1) by auto
  from inv1 st2 have "poll_inv s2" by (rule step_inv)
  from this i2 have t2: "timers s2 = []" by (rule no_job_no_timer)
  have later: "\<forall>es' s2. run es' s1 = Some s2 \<and> ReqStatus jid \<in> set (pending s2) \<longrightarrow>
              (\<exists>s3. step (StatusOk jid d) s2 = Some s3 \<and> jobStatus s3 = Some d \<and>
                 jobId s3 = jobId s2)"
    using step_status_ok by blast
  from st c1(1,2) t1 p1 st2 j2 i2 t2 later show ?thesis by blast
qed

theorem reset_keeps_inflight_response_witness:
  "run polling_trace init = Some polling_state \<and>
   ReqStatus ''abc'' \<in> set (pending polling_state) \<and>
   run [Reset, StatusOk ''abc'' plan_ready_abc] polling_state = Some stale_state \<and>
   jobId stale_state = None \<and> jobStatus stale_state = Some plan_ready_abc \<and>
   timers stale_state = []"
proof -
  have p: "ReqStatus ''abc'' \<in> set (pending polling_state)"
    by (simp add: polling_state_def)
  from reset_keeps_inflight_response [OF polling_trace_run p, of plan_ready_abc]
  obtain s1 s2 where 1: "step Reset polling_state = Some s1"
    and 2: "step (StatusOk ''abc'' plan_ready_abc) s1 = Some s2"
    and 3: "jobStatus s2 = Some plan_ready_abc" "jobId s2 = None" "timers s2 = []"
    by blast
  from 1 2 have r: "run [Reset, StatusOk ''abc'' plan_ready_abc] polling_state = Some s2"
    by simp
  moreover have "run [Reset, StatusOk ''abc'' plan_ready_abc] polling_state = Some stale_state"
    using stale_run by (simp add: run_append polling_trace_run)
  ultimately have "s2 = stale_state" by simp
  with 3 r p polling_trace_run show ?thesis by simp
qed

text \<open>
  The counterexample to C2 as stated: job \<open>abc\<close> is polling and a status request is in
  flight; the user resets; the response arrives. Afterwards \<open>jobStatus\<close> is not null
  and it is the status of job \<open>abc\<close>, the job that was reset: no newer job was started.
\<close>

theorem reset_then_stale_response:
  "run (polling_trace @ [Reset]) init =
     Some (polling_state\<lparr>jobId := None, jobStatus := None, isLoading := False,
       showLibrary := True, timers := [], lastDeps := (None, None), hasCleanup := False\<rparr>) \<and>
   run (polling_trace @ [Reset, StatusOk ''abc'' plan_ready_abc]) init = Some stale_state \<and>
   jobStatus stale_state \<noteq> None \<and>
   map_option id_j (jobStatus stale_state) = Some ''abc'' \<and>
   last_answered (polling_trace @ [Reset, StatusOk ''abc'' plan_ready_abc]) = Some ''abc'' \<and>
   started_job (polling_trace @ [Reset, StatusOk ''abc'' plan_ready_abc]) = Some ''abc''"
proof -
  have "run (polling_trace @ [Reset]) init =
     Some (polling_state\<lparr>jobId := None, jobStatus := None, isLoading := False,
       showLibrary := True, timers := [], lastDeps := (None, None), hasCleanup := False\<rparr>)"
    unfolding run_append polling_trace_run by (simp add: example_defs app_eval)
  moreover have "last_answered (polling_trace @ [Reset, StatusOk ''abc'' plan_ready_abc]) =
      Some ''abc''"
    by (simp add: polling_trace_def)
  moreover have "started_job (polling_trace @ [Reset, StatusOk ''abc'' plan_ready_abc]) =
      Some ''abc''"
    by (simp add: polling_trace_def started_job_def note_call_def)
  ultimately show ?thesis
    using stale_run by (simp add: stale_state_def plan_ready_abc_def pending_abc_def)
qed

text \<open>
  C3, as the code has it. In every reachable state a timer is armed exactly when the
  guard of the effect holds: \<open>jobId\<close> is set, a local job exists and its status is not
  one of \<open>completed\<close>, \<open>failed\<close>, \<open>plan_ready\<close>. A status response with a status
  in that set leaves no timer armed, so no tick can follow it. While no timer is armed,
  the only callbacks after which one is armed are: the response of a successful execute
  or regenerate request, the response of a successful plan creation (a new job), and a
  status response that carries a status outside the set, which can only be the response
  of a request that was still in flight. With a job present, the response of a successful
  execute or regenerate request arms one timer for the current \<open>jobId\<close>.
\<close>

theorem polling_active_iff_unsettled:
  assumes "run es init = Some s"
  shows "(timers s \<noteq> [] \<longleftrightarrow> should_poll s) \<and>
    (\<forall>jid d. ReqStatus jid \<in> set (pending s) \<and> terminal (status d) \<longrightarrow>
       (\<exists>s'. step (StatusOk jid d) s = Some s' \<and> timers s' = [] \<and>
          (\<forall>h. step (TimerFire h) s' = None))) \<and>
    (timers s = [] \<longrightarrow>
       (\<forall>e s'. step e s = Some s' \<and> timers s' \<noteq> [] \<longrightarrow>
          (\<exists>jid. e = ExecuteOk jid \<or> e = RegenerateOk jid) \<or>
          (\<exists>instr job_id now. e = GenerateOk instr job_id now) \<or>
          (\<exists>jid d. e = StatusOk jid d \<and> \<not> terminal (status d)))) \<and>
    (\<forall>cur j jid. jobId s = Some cur \<and> cur \<noteq> [] \<and> jobStatus s = Some j \<longrightarrow>
       (ReqExecute jid \<in> set (pending s) \<longrightarrow>
          (\<exists>s' h. step (ExecuteOk jid) s = Some s' \<and> timers s' = [(h, cur)])) \<and>
       (ReqRegenerate jid \<in> set (pending s) \<longrightarrow>
          (\<exists>s' h. step (RegenerateOk jid) s = Some s' \<and> timers s' = [(h, cur)])))"
proof -
  from assms have inv: "poll_inv s" by (rule reachable_inv)
  have a: "timers s \<noteq> [] \<longleftrightarrow> should_poll s" using inv by (rule poll_inv_timers)
  have b: "\<exists>s'. step (StatusOk jid d) s = Some s' \<and> timers s' = [] \<and>
          (\<forall>h. step (TimerFire h) s' = None)"
    if p: "ReqStatus jid \<in> set (pending s)" and t: "terminal (status d)" for jid d
  proof -
    from step_status_ok [OF p, of d] obtain s'
      where st: "step (StatusOk jid d) s = Some s'" and j: "jobStatus s' = Some d"
      by blast
    from inv st have inv': "poll_inv s'" by (rule step_inv)
    from j t have "\<not> should_poll s'" by (simp add: should_poll_def)
    with poll_inv_timers(1) [OF inv'] have "timers s' = []" by simp
    with st show ?thesis by (auto simp: timer_fire_needs_timer)
  qed
  have c: "timers s = [] \<longrightarrow>
       (\<forall>e s'. step e s = Some s' \<and> timers s' \<noteq> [] \<longrightarrow>
          (\<exists>jid. e = ExecuteOk jid \<or> e = RegenerateOk jid) \<or>
          (\<exists>instr job_id now. e = GenerateOk instr job_id now) \<or>
          (\<exists>jid d. e = StatusOk jid d \<and> \<not> terminal (status d)))"
    using rearm_cases [OF inv] by blast
  have d: "(ReqExecute jid \<in> set (pending s) \<longrightarrow>
          (\<exists>s' h. step (ExecuteOk jid) s = Some s' \<and> timers s' = [(h, cur)])) \<and>
       (ReqRegenerate jid \<in> set (pending s) \<longrightarrow>
          (\<exists>s' h. step (RegenerateOk jid) s = Some s' \<and> timers s' = [(h, cur)]))"
    if c: "jobId s = Some cur" "cur \<noteq> []" "jobStatus s = Some j" for cur j jid
  proof (intro conjI impI)
    assume "ReqExecute jid \<in> set (pending s)"
    then obtain s' where st: "step (ExecuteOk jid) s = Some s'"
      by (auto simp: step_def awaiting_def)
    from rearm_after_recording [OF inv st _ c] st
    show "\<exists>s' h. step (ExecuteOk jid) s = Some s' \<and> timers s' = [(h, cur)]" by blast
  next
    assume "ReqRegenerate jid \<in> set (pending s)"
    then obtain s' where st: "step (RegenerateOk jid) s = Some s'"
      by (auto simp: step_def awaiting_def)
    from rearm_after_recording [OF inv st _ c] st
    show "\<exists>s' h. step (RegenerateOk jid) s = Some s' \<and> timers s' = [(h, cur)]" by blast
  qed
  from a b c d show ?thesis by blast
qed

theorem polling_active_witness:
  "run polling_trace init = Some polling_state \<and>
   timers polling_state = [(1, ''abc'')] \<and> should_poll polling_state \<and>
   step (StatusOk ''abc'' plan_ready_abc) polling_state = Some plan_state \<and>
   timers plan_state = [] \<and> step (TimerFire 1) plan_state = None \<and>
   map_option timers
     (step (ExecuteOk ''abc'') (plan_state\<lparr>isLoading := True, pending := [ReqExecute ''abc'']\<rparr>)) =
     Some [(2, ''abc'')]"
proof -
  let ?e = "plan_state\<lparr>isLoading := True, pending := [ReqExecute ''abc'']\<rparr>"
  note a = polling_active_iff_unsettled [OF polling_trace_run]
  note b = polling_active_iff_unsettled [OF execute_click_run]
  have t: "timers polling_state = [(1, ''abc'')]" by (simp add: polling_state_def)
  with a have 1: "should_poll polling_state" by simp
  have p: "ReqStatus ''abc'' \<in> set (pending polling_state)"
    and tm: "terminal (status plan_ready_abc)"
    by (simp_all add: example_defs terminal_def)
  with a obtain s' where "step (StatusOk ''abc'' plan_ready_abc) polling_state = Some s'"
    and "timers s' = []" and "\<forall>h. step (TimerFire h) s' = None"
    by blast
  with poll_plan_ready_step
  have 2: "timers plan_state = []" "step (TimerFire 1) plan_state = None"
    by auto
  have c: "jobId ?e = Some ''abc''" "''abc'' \<noteq> []" "jobStatus ?e = Some plan_ready_abc"
    "ReqExecute ''abc'' \<in> set (pending ?e)"
    by (simp_all add: plan_state_def)
  with b obtain s2 h where s2: "step (ExecuteOk ''abc'') ?e = Some s2"
    and t2: "timers s2 = [(h, ''abc'')]"
    by blast
  have "map_option timers (step (ExecuteOk ''abc'') ?e) = Some [(2, ''abc'')]"
    by (simp add: example_defs app_eval)
  with polling_trace_run t 1 2 poll_plan_ready_step s2 t2 show ?thesis by simp
qed

text \<open>
  The counterexample to C3 as stated. Two status requests for job \<open>abc\<close> are in flight.
  The response that arrives first says \<open>plan_ready\<close>: polling stops, and one request
  is still in flight. Neither execute nor regenerate is called. The other response
  arrives and says \<open>generating_plan\<close>: a new timer is armed for \<open>abc\<close> and can fire.
\<close>

theorem late_status_response_rearms:
  "run late_trace init = Some settled_state \<and>
   map_option status (jobStatus settled_state) = Some ''plan_ready'' \<and>
   timers settled_state = [] \<and> pending settled_state = [ReqStatus ''abc''] \<and>
   step (StatusOk ''abc'' generating_abc) settled_state = Some rearmed_state \<and>
   timers rearmed_state = [(2, ''abc'')] \<and>
   step (TimerFire 2) rearmed_state \<noteq> None"
proof -
  have "step (TimerFire 2) rearmed_state \<noteq> None"
    by (simp add: step_def rearmed_state_def)
  with late_trace_run late_response_step show ?thesis
    by (simp add: settled_state_def plan_state_def rearmed_state_def plan_ready_abc_def)
qed

text \<open>
  C4, as the code has it. \<open>handleSubmitInstruction\<close> first clears \<open>jobId\<close> and
  \<open>jobStatus\<close> and sends the request. When the request succeeds, in whatever state
  the response arrives, \<open>jobId\<close> becomes the id the server returned and \<open>jobStatus\<close>
  a new job with that id, status \<open>pending\<close>, the submitted instruction, and
  \<open>task_plan\<close>, \<open>video_url\<close>, \<open>video_filename\<close>, \<open>results\<close> and \<open>error\<close>
  all null. When the request fails, the error slot holds a non-empty message, the loading
  flag is off, and \<open>jobId\<close> and \<open>jobStatus\<close> are what they were when the response
  arrived: the failure branch writes neither. So both are null when the response arrives
  right after the call, and also after any callbacks in between that are not the response
  of a status request or of another plan creation.
\<close>

theorem startJob_outcomes:
  "(\<exists>s1. step (Submit instr) s = Some s1 \<and> jobId s1 = None \<and> jobStatus s1 = None \<and>
      ReqGenerate instr \<in> set (pending s1) \<and>
      (\<exists>s2. step (GenerateOk instr job_id now) s1 = Some s2 \<and> jobId s2 = Some job_id \<and>
         jobStatus s2 = Some
           \<lparr>id_j = job_id, status = ''pending'', message = ''Generating plan'',
            instruction = instr, task_plan = None, video_url = None, video_filename = None,
            results = None, error_j = None, created_at = now\<rparr>) \<and>
      (\<exists>s3. step (GenerateFail instr err) s1 = Some s3 \<and> jobId s3 = None \<and>
         jobStatus s3 = None \<and> error s3 = Some (or_default err ''Error generating plan'') \<and>
         or_default err ''Error generating plan'' \<noteq> [] \<and> \<not> isLoading s3) \<and>
      (\<forall>es s2 s3.
         run es s1 = Some s2 \<and> list_all (\<lambda>e. \<not> writes_job e) es \<and>
         step (GenerateFail instr err) s2 = Some s3 \<longrightarrow>
         jobId s3 = None \<and> jobStatus s3 = None \<and>
         error s3 = Some (or_default err ''Error generating plan''))) \<and>
   (ReqGenerate instr \<in> set (pending s) \<longrightarrow>
      (\<exists>s2. step (GenerateOk instr job_id now) s = Some s2 \<and> jobId s2 = Some job_id \<and>
         jobStatus s2 = Some
           \<lparr>id_j = job_id, status = ''pending'', message = ''Generating plan'',
            instruction = instr, task_plan = None, video_url = None, video_filename = None,
            results = None, error_j = None, created_at = now\<rparr>) \<and>
      (\<exists>s3. step (GenerateFail instr err) s = Some s3 \<and> jobId s3 = jobId s \<and>
         jobStatus s3 = jobStatus s \<and>
         error s3 = Some (or_default err ''Error generating plan'') \<and>
         or_default err ''Error generating plan'' \<noteq> [] \<and> \<not> isLoading s3))"
proof -
  have response: "(\<exists>s2. step (GenerateOk instr job_id now) t = Some s2 \<and> jobId s2 = Some job_id \<and>
         jobStatus s2 = Some
           \<lparr>id_j = job_id, status = ''pending'', message = ''Generating plan'',
            instruction = instr, task_plan = None, video_url = None, video_filename = None,
            results = None, error_j = None, created_at = now\<rparr>) \<and>
      (\<exists>s3. step (GenerateFail instr err) t = Some s3 \<and> jobId s3 = jobId t \<and>
         jobStatus s3 = jobStatus t \<and>
         error s3 = Some (or_default err ''Error generating plan'') \<and>
         or_default err ''Error generating plan'' \<noteq> [] \<and> \<not> isLoading s3)"
    if "ReqGenerate instr \<in> set (pending t)" for t :: "('a, 'b) app_state"
    using that
    by (simp add: step_def awaiting_def handleSubmitInstruction_ok_def
        handleSubmitInstruction_fail_def or_default_nonempty)
  obtain s1 where st: "step (Submit instr) s = Some s1" by (simp add: step_def)
  then have c: "jobId s1 = None" "jobStatus s1 = None" "ReqGenerate instr \<in> set (pending s1)"
    by (auto simp: step_def handleSubmitInstruction_start_def)
  have later: "jobId s3 = None \<and> jobStatus s3 = None \<and>
         error s3 = Some (or_default err ''Error generating plan'')"
    if "run es s1 = Some s2" "list_all (\<lambda>e. \<not> writes_job e) es"
      "step (GenerateFail instr err) s2 = Some s3" for es s2 s3
    using run_quiet_no_job [OF that(1,2) c(1,2)] step_generate_fail [OF that(3)] by simp
  from response [OF c(3)] c(1,2)
  have now: "(\<exists>s2. step (GenerateOk instr job_id now) s1 = Some s2 \<and> jobId s2 = Some job_id \<and>
         jobStatus s2 = Some
           \<lparr>id_j = job_id, status = ''pending'', message = ''Generating plan'',
            instruction = instr, task_plan = None, video_url = None, video_filename = None,
            results = None, error_j = None, created_at = now\<rparr>) \<and>
      (\<exists>s3. step (GenerateFail instr err) s1 = Some s3 \<and> jobId s3 = None \<and>
         jobStatus s3 = None \<and> error s3 = Some (or_default err ''Error generating plan'') \<and>
         or_default err ''Error generating plan'' \<noteq> [] \<and> \<not> isLoading s3)"
    by auto
  from st c now later response show ?thesis by blast
qed

theorem startJob_witness:
  "(\<exists>s1. step (Submit ''Open Notepad'') completed_state = Some s1 \<and>
     (\<exists>s2. step (GenerateOk ''Open Notepad'' ''abc'' ''2026-01-01T00:00:00.000Z'') s1 = Some s2 \<and>
        jobId s2 = Some ''abc'' \<and> jobStatus s2 = Some pending_abc) \<and>
     (\<exists>s3. step (GenerateFail ''Open Notepad'' (Some ''Invalid instruction'')) s1 = Some s3 \<and>
        jobId s3 = None \<and> jobStatus s3 = None \<and> error s3 = Some ''Invalid instruction'')) \<and>
   map_option (\<lambda>s. (jobId s, jobStatus s, error s))
     (run [Submit ''Open Chrome'', StatusFail ''abc'' ''Network Error'',
           GenerateFail ''Open Chrome'' None] polling_state) =
     Some (None, None, Some ''Error generating plan'')"
proof -
  note a = startJob_outcomes [of "''Open Notepad''" completed_state "''abc''"
      "''2026-01-01T00:00:00.000Z''" "Some ''Invalid instruction''"]
  from a have 1: "\<exists>s1. step (Submit ''Open Notepad'') completed_state = Some s1 \<and>
     (\<exists>s2. step (GenerateOk ''Open Notepad'' ''abc'' ''2026-01-01T00:00:00.000Z'') s1 = Some s2 \<and>
        jobId s2 = Some ''abc'' \<and> jobStatus s2 = Some pending_abc) \<and>
     (\<exists>s3. step (GenerateFail ''Open Notepad'' (Some ''Invalid instruction'')) s1 = Some s3 \<and>
        jobId s3 = None \<and> jobStatus s3 = None \<and> error s3 = Some ''Invalid instruction'')"
    by (auto simp: pending_abc_def or_default_def)
  let ?q = "[StatusFail ''abc'' ''Network Error''] :: (string list, unit) event list"
  note b = startJob_outcomes [of "''Open Chrome''" polling_state "''x''" "''t''" None]
  then obtain s1 where s1: "step (Submit ''Open Chrome'') polling_state = Some s1"
    and later: "\<And>es s2 s3. run es s1 = Some s2 \<Longrightarrow> list_all (\<lambda>e. \<not> writes_job e) es \<Longrightarrow>
         step (GenerateFail ''Open Chrome'' None) s2 = Some s3 \<Longrightarrow>
         jobId s3 = None \<and> jobStatus s3 = None \<and>
         error s3 = Some (or_default None ''Error generating plan'')"
    by blast
  have q: "list_all (\<lambda>e. \<not> writes_job e) ?q" by (simp add: writes_job_def)
  from s1 have "pending s1 = [ReqStatus ''abc'', ReqGenerate ''Open Chrome'']"
    by (auto simp: step_def handleSubmitInstruction_start_def polling_state_def)
  then obtain s2 where s2: "step (StatusFail ''abc'' ''Network Error'') s1 = Some s2"
    and p2: "pending s2 = [ReqGenerate ''Open Chrome'']"
    by (simp add: step_def awaiting_def poll_fail_def)
  from s2 have rq: "run ?q s1 = Some s2" by simp
  from p2 obtain s3 where s3: "step (GenerateFail ''Open Chrome'' None) s2 = Some s3"
    by (simp add: step_def awaiting_def)
  from later [OF rq q s3] have r: "jobId s3 = None" "jobStatus s3 = None"
    "error s3 = Some ''Error generating plan''"
    by (simp_all add: or_default_def)
  have "run [Submit ''Open Chrome'', StatusFail ''abc'' ''Network Error'',
           GenerateFail ''Open Chrome'' None] polling_state = Some s3"
    by (simp add: s1 s2 s3)
  with r 1 show ?thesis by simp
qed

text \<open>
  The counterexample to C4 as stated. Job \<open>abc\<close> is polling with a status request in
  flight; the user resets and submits a new instruction; the late status response of
  \<open>abc\<close> arrives and is written to \<open>jobStatus\<close>; the plan creation fails. The
  failed call ends with \<open>jobId\<close> null but \<open>jobStatus\<close> holding the status of
  \<open>abc\<close>.
\<close>

theorem failed_start_keeps_stale_status:
  "run failed_start_trace init = Some failed_start_state \<and>
   jobId failed_start_state = None \<and>
   jobStatus failed_start_state = Some plan_ready_abc \<and>
   error failed_start_state = Some ''Error generating plan''"
  using failed_start_run by (simp add: failed_start_state_def stale_state_def)

text \<open>
  C5. When the response of a successful execute request arrives and a local job exists,
  the job's status becomes \<open>recording\<close> and its message \<open>Starting recording\<close>; no
  other field of the job changes. For a successful regenerate request the status becomes
  \<open>recording\<close>, the message \<open>Regenerating video\<close>, and \<open>video_url\<close> and
  \<open>video_filename\<close> become null; no other field changes.
\<close>

theorem execute_regenerate_optimistic:
  assumes "jobStatus s = Some j"
  shows "(ReqExecute jid \<in> set (pending s) \<longrightarrow>
           (\<exists>s'. step (ExecuteOk jid) s = Some s' \<and> jobId s' = jobId s \<and>
              jobStatus s' =
                Some (j\<lparr>status := ''recording'', message := ''Starting recording''\<rparr>))) \<and>
         (ReqRegenerate jid \<in> set (pending s) \<longrightarrow>
           (\<exists>s'. step (RegenerateOk jid) s = Some s' \<and> jobId s' = jobId s \<and>
              jobStatus s' =
                Some (j\<lparr>status := ''recording'', message := ''Regenerating video'',
                        video_url := None, video_filename := None\<rparr>)))"
  using assms
  by (simp add: step_def awaiting_def handleExecute_ok_def handleRegenerate_ok_def)

theorem execute_regenerate_witness:
  "run (plan_trace @ [Execute]) init =
     Some (plan_state\<lparr>isLoading := True, pending := [ReqExecute ''abc'']\<rparr>) \<and>
   map_option jobStatus
     (step (ExecuteOk ''abc'') (plan_state\<lparr>isLoading := True, pending := [ReqExecute ''abc'']\<rparr>)) =
     Some (Some (plan_ready_abc\<lparr>status := ''recording'', message := ''Starting recording''\<rparr>)) \<and>
   run (completed_trace @ [Regenerate]) init =
     Some (completed_state\<lparr>isLoading := True, pending := [ReqRegenerate ''abc'']\<rparr>) \<and>
   map_option jobStatus
     (step (RegenerateOk ''abc'')
        (completed_state\<lparr>isLoading := True, pending := [ReqRegenerate ''abc'']\<rparr>)) =
     Some (Some (plan_ready_abc\<lparr>status := ''recording'', message := ''Regenerating video''\<rparr>))"
proof -
  let ?e = "plan_state\<lparr>isLoading := True, pending := [ReqExecute ''abc'']\<rparr>"
  let ?r = "completed_state\<lparr>isLoading := True, pending := [ReqRegenerate ''abc'']\<rparr>"
  have 1: "run (plan_trace @ [Execute]) init = Some ?e"
    unfolding run_append plan_trace_run by (simp add: example_defs app_eval)
  have 2: "run (completed_trace @ [Regenerate]) init = Some ?r"
    unfolding run_append completed_trace_run by (simp add: example_defs app_eval)
  have je: "jobStatus ?e = Some plan_ready_abc" by (simp add: plan_state_def)
  have jr: "jobStatus ?r = Some completed_abc" by (simp add: completed_state_def)
  have pe: "ReqExecute ''abc'' \<in> set (pending ?e)" by simp
  have pr: "ReqRegenerate ''abc'' \<in> set (pending ?r)" by simp
  from execute_regenerate_optimistic [OF je, of "''abc''"] pe
  have 3: "map_option jobStatus (step (ExecuteOk ''abc'') ?e) =
     Some (Some (plan_ready_abc\<lparr>status := ''recording'', message := ''Starting recording''\<rparr>))"
    by auto
  from execute_regenerate_optimistic [OF jr, of "''abc''"] pr
  have 4: "map_option jobStatus (step (RegenerateOk ''abc'') ?r) =
     Some (Some (plan_ready_abc\<lparr>status := ''recording'', message := ''Regenerating video''\<rparr>))"
    by (auto simp: completed_abc_def plan_ready_abc_def pending_abc_def)
  from 1 2 3 4 show ?thesis by simp
qed

text \<open>
  C6. When the response of a plan save arrives and a local job exists: on success the
  job's \<open>task_plan\<close> is the submitted plan and every other field of the job, its status
  included, is unchanged, as are \<open>jobId\<close>, the error slot and the loading flag; on
  failure the job is unchanged and the error slot holds a non-empty message.
\<close>

theorem save_plan_frame:
  assumes "jobStatus s = Some j" and "ReqSave jid plan \<in> set (pending s)"
  shows "(\<exists>s'. step (SaveOk jid plan) s = Some s' \<and>
            jobStatus s' = Some (j\<lparr>task_plan := Some plan\<rparr>) \<and>
            map_option status (jobStatus s') = Some (status j) \<and>
            jobId s' = jobId s \<and> error s' = error s \<and> isLoading s' = isLoading s) \<and>
         (\<exists>s'. step (SaveFail jid plan err) s = Some s' \<and> jobStatus s' = Some j \<and>
            jobId s' = jobId s \<and> error s' = Some (or_default err ''Error saving plan'') \<and>
            or_default err ''Error saving plan'' \<noteq> [])"
  using assms
  by (simp add: step_def awaiting_def handleSaveTaskPlan_ok_def handleSaveTaskPlan_fail_def
      or_default_def split: option.splits)

theorem save_plan_witness:
  "run (plan_trace @ [Save [''open'', ''save'']]) init =
     Some (plan_state\<lparr>pending := [ReqSave ''abc'' [''open'', ''save'']]\<rparr>) \<and>
   map_option jobStatus
     (step (SaveOk ''abc'' [''open'', ''save''])
        (plan_state\<lparr>pending := [ReqSave ''abc'' [''open'', ''save'']]\<rparr>)) =
     Some (Some (plan_ready_abc\<lparr>task_plan := Some [''open'', ''save'']\<rparr>)) \<and>
   map_option (\<lambda>s. (jobStatus s, error s))
     (step (SaveFail ''abc'' [''open'', ''save''] None)
        (plan_state\<lparr>pending := [ReqSave ''abc'' [''open'', ''save'']]\<rparr>)) =
     Some (Some plan_ready_abc, Some ''Error saving plan'')"
proof -
  let ?p = "[''open'', ''save'']"
  let ?s = "plan_state\<lparr>pending := [ReqSave ''abc'' ?p]\<rparr>"
  have 1: "run (plan_trace @ [Save ?p]) init = Some ?s"
    unfolding run_append plan_trace_run by (simp add: example_defs app_eval)
  have j: "jobStatus ?s = Some plan_ready_abc" by (simp add: plan_state_def)
  have p: "ReqSave ''abc'' ?p \<in> set (pending ?s)" by simp
  from save_plan_frame [OF j p, of None]
  have "map_option jobStatus (step (SaveOk ''abc'' ?p) ?s) =
      Some (Some (plan_ready_abc\<lparr>task_plan := Some ?p\<rparr>))"
    and "map_option (\<lambda>s. (jobStatus s, error s)) (step (SaveFail ''abc'' ?p None) ?s) =
      Some (Some plan_ready_abc, Some ''Error saving plan'')"
    by (auto simp: or_default_def)
  with 1 show ?thesis by simp
qed

text \<open>
  C7. When the status request of a poll tick fails, the \<open>catch\<close> branch only writes to
  the console. In every state the component can reach, the step leaves all state cells,
  the ref and the armed timers as they were: \<open>jobId\<close>, \<open>jobStatus\<close> and the error
  slot are unchanged, and every timer that could fire before can still fire, so the
  request is sent again at the next interval.
\<close>

theorem poll_failure_is_transient:
  assumes "run es init = Some s" and "ReqStatus jid \<in> set (pending s)"
  shows "\<exists>s'. step (StatusFail jid err) s = Some s' \<and>
           s' = s\<lparr>console := console s @ [''Polling error: '' @ err],
                  pending := remove1 (ReqStatus jid) (pending s)\<rparr> \<and>
           jobId s' = jobId s \<and> jobStatus s' = jobStatus s \<and> error s' = error s \<and>
           timers s' = timers s \<and> pollingRef s' = pollingRef s \<and>
           (\<forall>h. callback (TimerFire h) s' = None \<longleftrightarrow> callback (TimerFire h) s = None)"
proof -
  from assms(1) have inv: "poll_inv s" by (rule reachable_inv)
  let ?m = "poll_fail jid err s"
  from assms(2) have c: "callback (StatusFail jid err) s = Some ?m"
    by (simp add: awaiting_def)
  have "deps ?m = deps s" "lastDeps ?m = lastDeps s"
    by (simp_all add: poll_fail_def deps_def)
  with inv c have "step (StatusFail jid err) s = Some ?m"
    by (rule step_unchanged_deps)
  then show ?thesis by (auto simp: poll_fail_def split: option.splits)
qed

theorem poll_failure_witness:
  "run polling_trace init = Some polling_state \<and>
   ReqStatus ''abc'' \<in> set (pending polling_state) \<and>
   step (StatusFail ''abc'' ''Network Error'') polling_state =
     Some (polling_state\<lparr>console := [''Polling error: Network Error''], pending := []\<rparr>) \<and>
   timers polling_state = [(1, ''abc'')]"
proof -
  have p: "ReqStatus ''abc'' \<in> set (pending polling_state)"
    by (simp add: polling_state_def)
  from poll_failure_is_transient [OF polling_trace_run p, of "''Network Error''"]
  have "step (StatusFail ''abc'' ''Network Error'') polling_state =
     Some (polling_state\<lparr>console := [''Polling error: Network Error''], pending := []\<rparr>)"
    by (auto simp: polling_state_def)
  with polling_trace_run p show ?thesis by (simp add: polling_state_def)
qed

text \<open>
  C8, at an input where the code departs from it. The library shows the tutorials 1, 2
  and 3. The user deletes 1 and, before the response arrives, deletes 2; both handlers
  were created by the same render and hold the list of three. The first response leaves
  2 and 3. The second response sets the list to the handler's own list without 2: the
  collection becomes 1 and 3, so entry 1, deleted on the server, is back in the local
  collection, although a successful delete of 2 should remove 2 and leave the rest as
  it was.
\<close>

theorem overlapping_deletes_restore_entry:
  "map_option (\<lambda>s. map id_t (tutorials s))
     (lib_run [ClickDelete ''1'' True, ClickDelete ''2'' True,
               DeleteOk (capture ''1'' lib_three)] lib_three) = Some [''2'', ''3''] \<and>
   map_option (\<lambda>s. map id_t (tutorials s))
     (lib_run [ClickDelete ''1'' True, ClickDelete ''2'' True,
               DeleteOk (capture ''1'' lib_three), DeleteOk (capture ''2'' lib_three)]
        lib_three) = Some [''1'', ''3'']"
  by (simp add: lib_eval)

text \<open>
  C9, at inputs where the code departs from it. First run: nothing is expanded, the user
  deletes tutorial 1 and expands it while the request is in flight; the handler compares
  the id with the \<open>expandedId\<close> of its own render (null), so after the delete
  \<open>expandedId\<close> still names 1, which is no longer in the collection. Second run:
  tutorial 1 is expanded, the user deletes it, collapses it and expands tutorial 2 while
  the request is in flight; the handler sees its own \<open>expandedId\<close> equal to 1 and
  clears the current one, which names 2.
\<close>

theorem delete_leaves_expanded_id:
  "map_option (\<lambda>s. (map id_t (tutorials s), expandedId s))
     (lib_run [ClickDelete ''1'' True, ToggleExpand ''1'',
               DeleteOk (capture ''1'' lib_three)] lib_three) =
     Some ([''2'', ''3''], Some ''1'') \<and>
   map_option (\<lambda>s. (map id_t (tutorials s), expandedId s))
     (lib_run [ToggleExpand ''1'', ClickDelete ''1'' True, ToggleExpand ''1'',
               ToggleExpand ''2'',
               DeleteOk (capture ''1'' (toggleExpand ''1'' lib_three))] lib_three) =
     Some ([''2'', ''3''], None)"
  by (simp add: lib_eval)

text \<open>
  C10. Submitting the form calls \<open>onSubmit\<close> if and only if the instruction is not empty
  after trimming, and then with the trimmed instruction; an empty or white-space-only
  instruction makes no call, so inside \<open>App\<close> it starts no job. The trimmed
  instruction is the input without the white space at its two ends. The submit button
  is disabled exactly when the form is loading or a submission would make no call.
\<close>

theorem form_submit_iff_trimmed_nonempty:
  "(handleSubmit x = Some a \<longleftrightarrow> trim x \<noteq> [] \<and> a = trim x) \<and>
   (handleSubmit x = None \<longleftrightarrow> list_all js_whitespace x) \<and>
   (submit_disabled l x \<longleftrightarrow> l \<or> handleSubmit x = None) \<and>
   (list_all js_whitespace x \<longrightarrow> submit_form x s = s) \<and>
   (trim x \<noteq> [] \<longrightarrow>
      submit_form x s = render (handleSubmitInstruction_start (trim x) s) \<and>
      \<not> js_whitespace (hd (trim x)) \<and> \<not> js_whitespace (last (trim x))) \<and>
   (\<exists>pre post. x = pre @ trim x @ post \<and> list_all js_whitespace pre \<and>
      list_all js_whitespace post)"
proof -
  have n: "handleSubmit x = None \<longleftrightarrow> list_all js_whitespace x"
    using trim_Nil_iff [of x] by (simp add: handleSubmit_def)
  have d: "\<exists>pre post. x = pre @ trim x @ post \<and> list_all js_whitespace pre \<and>
      list_all js_whitespace post"
    using trim_decompose [of x] takeWhile_all [of js_whitespace]
    by (metis list_all_rev)
  show ?thesis
    using n d trim_ends [of x]
    by (auto simp: handleSubmit_def submit_form_def submit_disabled_def)
qed

theorem form_submit_witness:
  "handleSubmit ''  Open Chrome   '' = Some ''Open Chrome'' \<and>
   handleSubmit [CHR 0x20, CHR 0x09, CHR 0x0A] = None \<and>
   submit_form [CHR 0x20, CHR 0x09, CHR 0x0A] (init :: (string list, unit) app_state) = init \<and>
   pending (submit_form ''  Open Chrome   '' (init :: (string list, unit) app_state)) =
     [ReqGenerate ''Open Chrome'']"
proof -
  let ?i = "init :: (string list, unit) app_state"
  have t: "trim ''  Open Chrome   '' = ''Open Chrome''"
    by (simp add: trim_def js_whitespace_def)
  have w: "list_all js_whitespace [CHR 0x20, CHR 0x09, CHR 0x0A]"
    by (simp add: js_whitespace_def)
  note a = form_submit_iff_trimmed_nonempty [of "''  Open Chrome   ''" "''Open Chrome''" _ ?i]
  note b = form_submit_iff_trimmed_nonempty [of "[CHR 0x20, CHR 0x09, CHR 0x0A]" "[]" _ ?i]
  have 1: "handleSubmit ''  Open Chrome   '' = Some ''Open Chrome''"
    using a t by simp
  have 2: "handleSubmit [CHR 0x20, CHR 0x09, CHR 0x0A] = None"
    using b w by blast
  have 3: "submit_form [CHR 0x20, CHR 0x09, CHR 0x0A] ?i = ?i"
    using b w by blast
  have "submit_form ''  Open Chrome   '' ?i =
      render (handleSubmitInstruction_start (trim ''  Open Chrome   '') ?i)"
    using a t by simp
  then have 4: "pending (submit_form ''  Open Chrome   '' ?i) = [ReqGenerate ''Open Chrome'']"
    by (simp add: t handleSubmitInstruction_start_def init_def)
  from 1 2 3 4 show ?thesis by blast
qed

end
